theory Spec2Isabelle
  imports Main "HOL-Library.AList"
begin

section \<open>Paths\<close>

text \<open>
  A \<open>pathlib.Path\<close> is modelled by its tuple of parts (\<open>Path.parts\<close>): an absolute POSIX
  path starts with the root part \<open>/\<close> (or \<open>//\<close>), the relative path \<open>.\<close> has no part.
  Characters are code points below 256.
\<close>

type_synonym path = "string list"

definition parts :: "path \<Rightarrow> string list" where
  "parts p = p"

definition parent :: "path \<Rightarrow> path" where
  "parent p = (if p = [''/''] \<or> p = [''//''] then p else butlast p)"

definition name_of :: "path \<Rightarrow> string" where
  "name_of p = (if p = [] \<or> p = [''/''] \<or> p = [''//''] then [] else last p)"

definition joinpath :: "path \<Rightarrow> path \<Rightarrow> path" where
  "joinpath p rel = p @ rel"

text \<open>\<open>p / n\<close> for a name \<open>n\<close> that a directory listing gave: one more part.\<close>

definition child :: "path \<Rightarrow> string \<Rightarrow> path" where
  "child p n = p @ [n]"

text \<open>
  \<open>p / s\<close> for any string \<open>s\<close>, as pathlib parses it: the string is split at the
  separators, empty components and \<open>.\<close> are dropped, and a string that starts with a
  separator is an absolute path, which replaces \<open>p\<close>. Exactly two leading separators are
  the root \<open>//\<close>.
\<close>

fun split_on :: "char \<Rightarrow> string \<Rightarrow> string list" where
  "split_on c [] = [[]]"
| "split_on c (x # xs) =
     (if x = c then [] # split_on c xs
      else (case split_on c xs of [] \<Rightarrow> [[x]] | y # ys \<Rightarrow> (x # y) # ys))"

definition posix_root :: "string \<Rightarrow> string" where
  "posix_root s =
     (if take 1 s \<noteq> ''/'' then []
      else if take 2 s = ''//'' \<and> take 3 s \<noteq> ''///'' then ''//''
      else ''/'')"

definition path_of_str :: "string \<Rightarrow> path" where
  "path_of_str s =
     (if posix_root s = [] then [] else [posix_root s])
     @ filter (\<lambda>part. part \<noteq> [] \<and> part \<noteq> ''.'') (split_on CHR ''/'' s)"

definition truediv :: "path \<Rightarrow> string \<Rightarrow> path" where
  "truediv p s = (if posix_root s \<noteq> [] then path_of_str s else p @ path_of_str s)"

fun join_sep :: "string list \<Rightarrow> string" where
  "join_sep [] = []"
| "join_sep [x] = x"
| "join_sep (x # y # ys) = x @ ''/'' @ join_sep (y # ys)"

definition str_of_path :: "path \<Rightarrow> string" where
  "str_of_path p =
     (case p of [] \<Rightarrow> ''.''
      | a # r \<Rightarrow> if a = ''/'' \<or> a = ''//'' then a @ join_sep r else join_sep p)"

section \<open>Exceptions\<close>

datatype py_error =
    FileNotFoundError path
  | FileExistsError path
  | PermissionError path
  | IsADirectoryError path
  | NotADirectoryError path
  | DirectoryNotEmpty path
  | SameFileError path path
  | ValueError path path
  | EOFError

text \<open>
  \<open>repr\<close> of a string: single quotes, or double quotes when the string has a single
  quote and no double quote; the quote and the backslash are escaped by a backslash, tab,
  newline and carriage return are written as a backslash and \<open>t\<close>, \<open>n\<close>, \<open>r\<close>, and every
  other character that is not printable as a backslash, \<open>x\<close> and two hexadecimal digits.
  \<open>quoted\<close> is the \<open>repr\<close> of a string without any of these.
\<close>

definition hex_digit :: "nat \<Rightarrow> char" where
  "hex_digit n = ''0123456789abcdef'' ! (n mod 16)"

definition py_repr_char :: "char \<Rightarrow> char \<Rightarrow> string" where
  "py_repr_char q c =
     (let n = (of_char c :: nat)
      in if c = q \<or> c = CHR 0x5C then [CHR 0x5C, c]
         else if n = 9 then [CHR 0x5C, CHR ''t'']
         else if n = 10 then [CHR 0x5C, CHR ''n'']
         else if n = 13 then [CHR 0x5C, CHR ''r'']
         else if n < 32 \<or> n = 127 \<or> (128 \<le> n \<and> n \<le> 160) \<or> n = 173
         then [CHR 0x5C, CHR ''x'', hex_digit (n div 16), hex_digit (n mod 16)]
         else [c])"

definition py_repr :: "string \<Rightarrow> string" where
  "py_repr s =
     (let q = (if CHR 0x27 \<in> set s \<and> CHR 0x22 \<notin> set s then CHR 0x22 else CHR 0x27)
      in [q] @ concat (map (py_repr_char q) s) @ [q])"

definition quoted :: "string \<Rightarrow> string" where
  "quoted s = [CHR 0x27] @ s @ [CHR 0x27]"

text \<open>
  \<open>str(e)\<close>. An \<open>OSError\<close> prints its number, its text and the \<open>repr\<close> of the file name;
  \<open>shutil\<close> prints the two \<open>Path\<close> objects it was given.
\<close>

fun str_of_error :: "py_error \<Rightarrow> string" where
  "str_of_error (FileNotFoundError p) =
     ''[Errno 2] No such file or directory: '' @ py_repr (str_of_path p)"
| "str_of_error (FileExistsError p) =
     ''[Errno 17] File exists: '' @ py_repr (str_of_path p)"
| "str_of_error (PermissionError p) =
     ''[Errno 13] Permission denied: '' @ py_repr (str_of_path p)"
| "str_of_error (IsADirectoryError p) =
     ''[Errno 21] Is a directory: '' @ py_repr (str_of_path p)"
| "str_of_error (NotADirectoryError p) =
     ''[Errno 20] Not a directory: '' @ py_repr (str_of_path p)"
| "str_of_error (DirectoryNotEmpty p) =
     ''[Errno 39] Directory not empty: '' @ py_repr (str_of_path p)"
| "str_of_error (SameFileError p q) =
     ''PosixPath('' @ py_repr (str_of_path p) @ '') and PosixPath(''
     @ py_repr (str_of_path q) @ '') are the same file''"
| "str_of_error (ValueError p q) =
     py_repr (str_of_path p) @ '' is not in the subpath of '' @ py_repr (str_of_path q)"
| "str_of_error EOFError = ''EOF when reading a line''"

section \<open>The file system\<close>

text \<open>
  The file system is a table from paths to nodes, in directory-listing order. A regular
  file has its bytes and a read permission; a directory has a write permission, which
  creating or removing one of its entries needs. There are no symbolic links, and a part
  \<open>..\<close> is a name like any other (the program builds none; only a \<open>--name\<close> given with
  one has it).
\<close>

datatype node = File (content: string) (readable: bool) | Dir (writable: bool)

type_synonym fs = "(path \<times> node) list"

record stat_result =
  st_size :: nat
  st_isdir :: bool

definition dir_st_size :: nat where
  "dir_st_size = 4096"

definition os_stat :: "fs \<Rightarrow> path \<Rightarrow> py_error + stat_result" where
  "os_stat fs p =
     (case map_of fs p of
        None \<Rightarrow> Inl (FileNotFoundError p)
      | Some (File c r) \<Rightarrow> Inr \<lparr>st_size = length c, st_isdir = False\<rparr>
      | Some (Dir w) \<Rightarrow> Inr \<lparr>st_size = dir_st_size, st_isdir = True\<rparr>)"

definition ignore_error :: "py_error \<Rightarrow> bool" where
  "ignore_error e =
     (case e of FileNotFoundError _ \<Rightarrow> True | NotADirectoryError _ \<Rightarrow> True | _ \<Rightarrow> False)"

definition path_exists :: "fs \<Rightarrow> path \<Rightarrow> py_error + bool" where
  "path_exists fs p =
     (case os_stat fs p of
        Inr _ \<Rightarrow> Inr True
      | Inl e \<Rightarrow> if ignore_error e then Inr False else Inl e)"

definition is_dir :: "fs \<Rightarrow> path \<Rightarrow> py_error + bool" where
  "is_dir fs p =
     (case os_stat fs p of
        Inr s \<Rightarrow> Inr (st_isdir s)
      | Inl e \<Rightarrow> if ignore_error e then Inr False else Inl e)"

definition is_file :: "fs \<Rightarrow> path \<Rightarrow> py_error + bool" where
  "is_file fs p =
     (case os_stat fs p of
        Inr s \<Rightarrow> Inr (\<not> st_isdir s)
      | Inl e \<Rightarrow> if ignore_error e then Inr False else Inl e)"

definition dir_writable :: "fs \<Rightarrow> path \<Rightarrow> bool" where
  "dir_writable fs d = (case map_of fs d of Some (Dir w) \<Rightarrow> w | _ \<Rightarrow> False)"

definition entries :: "fs \<Rightarrow> path \<Rightarrow> path list" where
  "entries fs d = remdups (filter (\<lambda>q. q \<noteq> d \<and> parent q = d) (map fst fs))"

definition os_scandir :: "fs \<Rightarrow> path \<Rightarrow> py_error + (string \<times> bool) list" where
  "os_scandir fs d =
     (case map_of fs d of
        None \<Rightarrow> Inl (FileNotFoundError d)
      | Some (File c r) \<Rightarrow> Inl (NotADirectoryError d)
      | Some (Dir w) \<Rightarrow>
          Inr (map (\<lambda>q. (last q, case map_of fs q of Some (Dir _) \<Rightarrow> True | _ \<Rightarrow> False))
                   (entries fs d)))"

definition iterdir :: "fs \<Rightarrow> path \<Rightarrow> py_error + path list" where
  "iterdir fs d =
     (case os_scandir fs d of
        Inl e \<Rightarrow> Inl e
      | Inr es \<Rightarrow> Inr (map (\<lambda>(n, isd). child d n) es))"

definition open_rb :: "fs \<Rightarrow> path \<Rightarrow> py_error + string" where
  "open_rb fs p =
     (case map_of fs p of
        None \<Rightarrow> Inl (FileNotFoundError p)
      | Some (Dir w) \<Rightarrow> Inl (IsADirectoryError p)
      | Some (File c r) \<Rightarrow> if r then Inr c else Inl (PermissionError p))"

definition os_unlink :: "fs \<Rightarrow> path \<Rightarrow> py_error + fs" where
  "os_unlink fs p =
     (case map_of fs p of
        None \<Rightarrow> Inl (FileNotFoundError p)
      | Some (Dir w) \<Rightarrow> Inl (IsADirectoryError p)
      | Some (File c r) \<Rightarrow>
          if dir_writable fs (parent p) then Inr (AList.delete p fs)
          else Inl (PermissionError p))"

definition os_rmdir :: "fs \<Rightarrow> path \<Rightarrow> py_error + fs" where
  "os_rmdir fs d =
     (case map_of fs d of
        None \<Rightarrow> Inl (FileNotFoundError d)
      | Some (File c r) \<Rightarrow> Inl (NotADirectoryError d)
      | Some (Dir w) \<Rightarrow>
          if entries fs d \<noteq> [] then Inl (DirectoryNotEmpty d)
          else if dir_writable fs (parent d) then Inr (AList.delete d fs)
          else Inl (PermissionError d))"

definition os_mkdir :: "fs \<Rightarrow> path \<Rightarrow> py_error + fs" where
  "os_mkdir fs d =
     (case map_of fs d of
        Some _ \<Rightarrow> Inl (FileExistsError d)
      | None \<Rightarrow>
          (case map_of fs (parent d) of
             None \<Rightarrow> Inl (FileNotFoundError d)
           | Some (File c r) \<Rightarrow> Inl (NotADirectoryError d)
           | Some (Dir w) \<Rightarrow>
               if w then Inr (fs @ [(d, Dir True)]) else Inl (PermissionError d)))"

section \<open>Hashing\<close>

text \<open>
  \<open>hashlib.sha256\<close> is a library object with a streaming interface; it is taken as a
  parameter: the fresh state, \<open>update\<close> and \<open>hexdigest\<close>.
\<close>

record 'h hashlib =
  h_new :: 'h
  h_update :: "'h \<Rightarrow> string \<Rightarrow> 'h"
  h_hexdigest :: "'h \<Rightarrow> string"

function read_chunks :: "nat \<Rightarrow> string \<Rightarrow> string list" where
  "read_chunks n bs =
     (if n = 0 \<or> bs = [] then [] else take n bs # read_chunks n (drop n bs))"
  by pat_completeness auto

termination
  by (relation "measure (\<lambda>(n, bs). length bs)") auto

declare read_chunks.simps [simp del]

definition sha256_of_file :: "'h hashlib \<Rightarrow> fs \<Rightarrow> path \<Rightarrow> nat \<Rightarrow> py_error + string" where
  "sha256_of_file hl fs p chunk_size =
     (case open_rb fs p of
        Inl e \<Rightarrow> Inl e
      | Inr bs \<Rightarrow>
          Inr (h_hexdigest hl (foldl (h_update hl) (h_new hl) (read_chunks chunk_size bs))))"

section \<open>Verification\<close>

definition verify_pair_try :: "'h hashlib \<Rightarrow> fs \<Rightarrow> path \<Rightarrow> path \<Rightarrow> bool \<Rightarrow> py_error + bool" where
  "verify_pair_try hl fs src dst use_hash =
     (case path_exists fs dst of
        Inl e \<Rightarrow> Inl e
      | Inr dst_there \<Rightarrow>
     (case (if \<not> dst_there then Inr False else path_exists fs src) of
        Inl e \<Rightarrow> Inl e
      | Inr both_there \<Rightarrow>
          if \<not> both_there then Inr False
          else
     (case os_stat fs src of
        Inl e \<Rightarrow> Inl e
      | Inr s \<Rightarrow>
     (case os_stat fs dst of
        Inl e \<Rightarrow> Inl e
      | Inr d \<Rightarrow>
          if st_size s \<noteq> st_size d then Inr False
          else if use_hash then
            (case sha256_of_file hl fs src 8192 of
               Inl e \<Rightarrow> Inl e
             | Inr h_src \<Rightarrow>
            (case sha256_of_file hl fs dst 8192 of
               Inl e \<Rightarrow> Inl e
             | Inr h_dst \<Rightarrow> Inr (h_src = h_dst)))
          else Inr True))))"

definition verify_pair :: "'h hashlib \<Rightarrow> fs \<Rightarrow> path \<Rightarrow> path \<Rightarrow> bool \<Rightarrow> bool" where
  "verify_pair hl fs src dst use_hash =
     (case verify_pair_try hl fs src dst use_hash of
        Inl e \<Rightarrow> False
      | Inr ok \<Rightarrow> ok)"

section \<open>Deletion\<close>

definition excluded_path :: "string set \<Rightarrow> path \<Rightarrow> bool" where
  "excluded_path exclude_names src = (\<exists>part \<in> set (parts src). \<exists>n \<in> exclude_names. part = n)"

text \<open>
  The body of the loop over \<open>copied_pairs\<close>, on the state the loop carries: the file
  system and the two lists \<open>deleted\<close> and \<open>failed\<close>.
\<close>

type_synonym delete_state = "fs \<times> path list \<times> (path \<times> string) list"

definition delete_body ::
  "'h hashlib \<Rightarrow> string set \<Rightarrow> bool \<Rightarrow> delete_state \<Rightarrow> path \<times> path \<Rightarrow> delete_state"
where
  "delete_body hl exclude_names use_hash st pair =
     (case st of (fs, deleted, failed) \<Rightarrow>
      case pair of (src, dst) \<Rightarrow>
        if excluded_path exclude_names src
        then (fs, deleted, failed @ [(src, ''excluded'')])
        else if \<not> verify_pair hl fs src dst use_hash
        then (fs, deleted, failed @ [(src, ''verification_failed'')])
        else
          (case os_unlink fs src of
             Inr fs' \<Rightarrow> (fs', deleted @ [src], failed)
           | Inl e \<Rightarrow> (fs, deleted, failed @ [(src, ''delete_error:'' @ str_of_error e)])))"

definition delete_loop ::
  "'h hashlib \<Rightarrow> string set \<Rightarrow> bool \<Rightarrow> (path \<times> path) list \<Rightarrow> delete_state \<Rightarrow> delete_state"
where
  "delete_loop hl exclude_names use_hash copied_pairs st =
     foldl (delete_body hl exclude_names use_hash) st copied_pairs"

definition prune_try :: "fs \<Rightarrow> path \<Rightarrow> py_error + fs" where
  "prune_try fs d =
     (case path_exists fs d of
        Inl e \<Rightarrow> Inl e
      | Inr there \<Rightarrow>
          if \<not> there then Inr fs
          else
     (case is_dir fs d of
        Inl e \<Rightarrow> Inl e
      | Inr isd \<Rightarrow>
          if \<not> isd then Inr fs
          else
     (case iterdir fs d of
        Inl e \<Rightarrow> Inl e
      | Inr inside \<Rightarrow> if inside \<noteq> [] then Inr fs else os_rmdir fs d)))"

definition prune_step :: "fs \<Rightarrow> path \<Rightarrow> fs" where
  "prune_step fs d = (case prune_try fs d of Inl e \<Rightarrow> fs | Inr fs' \<Rightarrow> fs')"

definition prune_loop :: "fs \<Rightarrow> path list \<Rightarrow> fs" where
  "prune_loop fs dirs = foldl prune_step fs dirs"

definition prune_candidates :: "(path list \<Rightarrow> path list) \<Rightarrow> path list \<Rightarrow> path list" where
  "prune_candidates set_iter deleted =
     sort_key (\<lambda>p. - int (length (parts p))) (set_iter (map parent deleted))"

definition delete_backed_files ::
  "'h hashlib \<Rightarrow> (path list \<Rightarrow> path list) \<Rightarrow> fs \<Rightarrow> (path \<times> path) list \<Rightarrow> string set \<Rightarrow>
   bool \<Rightarrow> bool \<Rightarrow> fs \<times> path list \<times> (path \<times> string) list"
where
  "delete_backed_files hl set_iter fs copied_pairs exclude_names use_hash remove_empty_dirs =
     (case delete_loop hl exclude_names use_hash copied_pairs (fs, [], []) of
        (fs1, deleted, failed) \<Rightarrow>
          (if remove_empty_dirs then prune_loop fs1 (prune_candidates set_iter deleted) else fs1,
           deleted, failed))"

section \<open>Allocation of the backup directory\<close>

text \<open>
  \<open>Path.mkdir(parents, exist_ok)\<close> of pathlib, over \<open>os.mkdir\<close>: a missing parent is created
  first when \<open>parents\<close> is set; any other error is raised again unless \<open>exist_ok\<close> is set
  and the path is a directory.
\<close>

definition is_FileNotFoundError :: "py_error \<Rightarrow> bool" where
  "is_FileNotFoundError e = (case e of FileNotFoundError _ \<Rightarrow> True | _ \<Rightarrow> False)"

definition is_FileExistsError :: "py_error \<Rightarrow> bool" where
  "is_FileExistsError e = (case e of FileExistsError _ \<Rightarrow> True | _ \<Rightarrow> False)"

function path_mkdir :: "fs \<Rightarrow> path \<Rightarrow> bool \<Rightarrow> bool \<Rightarrow> py_error + fs" where
  "path_mkdir fs p parents exist_ok =
     (case os_mkdir fs p of
        Inr fs' \<Rightarrow> Inr fs'
      | Inl e \<Rightarrow>
          if is_FileNotFoundError e then
            if \<not> parents \<or> parent p = p then Inl e
            else
              (case path_mkdir fs (parent p) True True of
                 Inl e' \<Rightarrow> Inl e'
               | Inr fs1 \<Rightarrow> path_mkdir fs1 p False exist_ok)
          else if \<not> exist_ok then Inl e
          else
            (case is_dir fs p of
               Inl e' \<Rightarrow> Inl e'
             | Inr isd \<Rightarrow> if \<not> isd then Inl e else Inr fs))"
  by pat_completeness auto

termination
proof (relation "measure (\<lambda>(fs, p, parents, exist_ok). 2 * length p + (if parents then 1 else 0))",
       goal_cases)
  case 1
  show ?case by simp
next
  case (2 fs p parents exist_ok e)
  then have "parent p \<noteq> p" by simp
  then have "p \<noteq> []" "parent p = butlast p" by (auto simp: parent_def split: if_splits)
  then show ?case by (cases p) auto
next
  case (3 fs p parents exist_ok e fs1)
  then show ?case by simp
qed

declare path_mkdir.simps [simp del]

text \<open>
  The decimal rendering of an integer in an f-string, and \<open>strftime("%Y%m%d_%H%M%S")\<close>:
  the clock is an input of the run.
\<close>

fun digit_char :: "nat \<Rightarrow> char" where
  "digit_char n = char_of (48 + n)"

function str_nat :: "nat \<Rightarrow> string" where
  "str_nat n = (if n < 10 then [digit_char n] else str_nat (n div 10) @ [digit_char (n mod 10)])"
  by pat_completeness auto

termination
  by (relation "measure id") auto

declare str_nat.simps [simp del]

definition zfill :: "nat \<Rightarrow> string \<Rightarrow> string" where
  "zfill width s = replicate (width - length s) CHR ''0'' @ s"

record datetime =
  year :: nat
  month :: nat
  day :: nat
  hour :: nat
  minute :: nat
  second :: nat

definition strftime_Ymd_HMS :: "datetime \<Rightarrow> string" where
  "strftime_Ymd_HMS t =
     zfill 4 (str_nat (year t)) @ zfill 2 (str_nat (month t)) @ zfill 2 (str_nat (day t))
     @ ''_'' @
     zfill 2 (str_nat (hour t)) @ zfill 2 (str_nat (minute t)) @ zfill 2 (str_nat (second t))"

definition create_unique_backup_dir ::
  "fs \<Rightarrow> path \<Rightarrow> string \<Rightarrow> datetime \<Rightarrow> py_error + fs \<times> path" where
  "create_unique_backup_dir fs base_dir base_name now =
     (let timestamp = strftime_Ymd_HMS now;
          candidate = truediv base_dir (base_name @ ''_'' @ timestamp)
      in case path_mkdir fs candidate True False of
           Inl e \<Rightarrow> Inl e
         | Inr fs' \<Rightarrow> Inr (fs', candidate))"

subsection \<open>The probing loop ends\<close>

text \<open>
  What \<open>Path.mkdir\<close> changes and when it reports an existing entry, and that the
  candidate names are pairwise distinct: the facts the termination of the probing loop
  rests on.
\<close>

lemma os_mkdir_Inr:
  "os_mkdir fs p = Inr fs' \<Longrightarrow> map_of fs p = None \<and> fs' = fs @ [(p, Dir True)]"
  by (auto simp: os_mkdir_def split: option.splits node.splits if_splits)

lemma os_mkdir_not_found:
  "os_mkdir fs p = Inl (FileNotFoundError q) \<Longrightarrow> map_of fs p = None \<and> map_of fs (parent p) = None"
  by (auto simp: os_mkdir_def split: option.splits node.splits if_splits)

lemma os_mkdir_exists_iff:
  "(\<exists>q. os_mkdir fs p = Inl (FileExistsError q)) \<longleftrightarrow> map_of fs p \<noteq> None"
  by (auto simp: os_mkdir_def split: option.splits node.splits if_splits)

lemma os_mkdir_exists: "map_of fs p \<noteq> None \<Longrightarrow> os_mkdir fs p = Inl (FileExistsError p)"
  by (auto simp: os_mkdir_def split: option.splits)

lemma map_of_snoc_fresh:
  "map_of fs p = None \<Longrightarrow> map_of (fs @ [(p, n)]) q = (if q = p then Some n else map_of fs q)"
  by (auto simp: map_of_append map_add_def split: option.splits)

definition mkdir_post :: "fs \<Rightarrow> path \<Rightarrow> bool \<Rightarrow> py_error + fs \<Rightarrow> bool" where
  "mkdir_post fs p exist_ok r =
     ((\<forall>fs'. r = Inr fs' \<longrightarrow>
         (\<forall>q. map_of fs' q = map_of fs q \<or>
              (map_of fs q = None \<and> map_of fs' q = Some (Dir True) \<and> take (length q) p = q)) \<and>
         map_of fs' p \<noteq> None \<and> (\<not> exist_ok \<longrightarrow> map_of fs p = None)) \<and>
      (\<forall>q. r = Inl (FileExistsError q) \<longrightarrow> map_of fs p \<noteq> None))"

lemma take_parent: "parent p \<noteq> p \<Longrightarrow> take (length q) (parent p) = q \<Longrightarrow> take (length q) p = q"
proof -
  assume a: "parent p \<noteq> p" and t: "take (length q) (parent p) = q"
  from a have pb: "parent p = butlast p" by (auto simp: parent_def split: if_splits)
  have "length (take (length q) (butlast p)) = length q"
    using t pb by simp
  then have "length q \<le> length (butlast p)"
    by simp
  then show ?thesis
    using t pb by (simp add: butlast_conv_take)
qed

lemma is_dir_True: "is_dir fs p = Inr True \<Longrightarrow> map_of fs p \<noteq> None"
  by (auto simp: is_dir_def os_stat_def ignore_error_def split: option.splits node.splits if_splits)

lemma os_mkdir_not_found':
  "os_mkdir fs p = Inl e \<Longrightarrow> is_FileNotFoundError e \<Longrightarrow>
     map_of fs p = None \<and> map_of fs (parent p) = None"
  by (auto simp: os_mkdir_def is_FileNotFoundError_def split: option.splits node.splits if_splits)

lemma is_dir_not_raised: "is_dir fs p \<noteq> Inl e"
  by (auto simp: is_dir_def os_stat_def ignore_error_def split: option.splits node.splits)

lemma path_mkdir_post: "mkdir_post fs p exist_ok (path_mkdir fs p parents exist_ok)"
proof (induction fs p parents exist_ok rule: path_mkdir.induct)
  case (1 fs p parents exist_ok)
  show ?case
  proof (cases "os_mkdir fs p")
    case (Inr fs')
    then have r: "path_mkdir fs p parents exist_ok = Inr fs'"
      by (subst path_mkdir.simps) simp
    from os_mkdir_Inr [OF Inr] have n: "map_of fs p = None" and f: "fs' = fs @ [(p, Dir True)]"
      by simp_all
    show ?thesis
      unfolding r mkdir_post_def using n
      by (auto simp: f map_of_snoc_fresh [OF n] simp del: map_of_append)
  next
    case (Inl e)
    show ?thesis
    proof (cases "is_FileNotFoundError e")
      case False
      have r: "path_mkdir fs p parents exist_ok =
          (if \<not> exist_ok then Inl e
           else (case is_dir fs p of Inl e' \<Rightarrow> Inl e'
                 | Inr isd \<Rightarrow> if \<not> isd then Inl e else Inr fs))"
        using Inl False by (subst path_mkdir.simps) simp
      have ex: "map_of fs p \<noteq> None" if "e = FileExistsError q" for q
        using Inl that os_mkdir_exists_iff [of fs p] by blast
      show ?thesis
        unfolding r mkdir_post_def using ex is_dir_not_raised [of fs p] is_dir_True [of fs p]
        by (auto split: sum.splits if_splits)
    next
      case True
      from os_mkdir_not_found' [OF Inl True]
      have n: "map_of fs p = None" and np: "map_of fs (parent p) = None" by simp_all
      have nex: "e \<noteq> FileExistsError q" for q
        using True by (auto simp: is_FileNotFoundError_def)
      show ?thesis
      proof (cases "\<not> parents \<or> parent p = p")
        case True
        then have r: "path_mkdir fs p parents exist_ok = Inl e"
          using Inl \<open>is_FileNotFoundError e\<close> by (subst path_mkdir.simps) auto
        show ?thesis unfolding r mkdir_post_def using nex by simp
      next
        case rec: False
        have ih1: "mkdir_post fs (parent p) True (path_mkdir fs (parent p) True True)"
          using "1.IH"(1) [OF Inl True rec] .
        show ?thesis
        proof (cases "path_mkdir fs (parent p) True True")
          case (Inl e1)
          then have r: "path_mkdir fs p parents exist_ok = Inl e1"
            using \<open>os_mkdir fs p = Inl e\<close> True rec by (subst path_mkdir.simps) auto
          have "e1 \<noteq> FileExistsError q'" for q'
            using ih1 np unfolding Inl mkdir_post_def by auto
          then show ?thesis unfolding r mkdir_post_def using n by auto
        next
          case (Inr fs1)
          then have r: "path_mkdir fs p parents exist_ok = path_mkdir fs1 p False exist_ok"
            using \<open>os_mkdir fs p = Inl e\<close> True rec by (subst path_mkdir.simps) auto
          have ih2: "mkdir_post fs1 p exist_ok (path_mkdir fs1 p False exist_ok)"
            using "1.IH"(2) [OF \<open>os_mkdir fs p = Inl e\<close> True rec Inr] .
          have fr1: "map_of fs1 q = map_of fs q \<or>
              (map_of fs q = None \<and> map_of fs1 q = Some (Dir True) \<and> take (length q) (parent p) = q)"
            for q
            using ih1 unfolding Inr mkdir_post_def by blast
          have pp: "parent p \<noteq> p" using rec by simp
          have "take (length p) (parent p) \<noteq> p"
          proof -
            from pp have "parent p = butlast p" "p \<noteq> []" by (auto simp: parent_def split: if_splits)
            then have "length (take (length p) (parent p)) < length p" by (cases p) auto
            then show ?thesis by auto
          qed
          then have n1: "map_of fs1 p = None" using fr1 [of p] n by auto
          show ?thesis
            unfolding r mkdir_post_def
          proof (intro conjI allI impI)
            fix fs' q' assume ok: "path_mkdir fs1 p False exist_ok = Inr fs'"
            from ih2 ok have fr2: "map_of fs' q' = map_of fs1 q' \<or>
              (map_of fs1 q' = None \<and> map_of fs' q' = Some (Dir True) \<and> take (length q') p = q')"
              unfolding mkdir_post_def by blast
            show "map_of fs' q' = map_of fs q' \<or>
              (map_of fs q' = None \<and> map_of fs' q' = Some (Dir True) \<and> take (length q') p = q')"
              using fr2 fr1 [of q'] take_parent [OF pp, of q'] by auto
          next
            fix fs' assume ok: "path_mkdir fs1 p False exist_ok = Inr fs'"
            then show "map_of fs' p \<noteq> None" using ih2 unfolding mkdir_post_def by blast
          next
            fix fs' assume "path_mkdir fs1 p False exist_ok = Inr fs'" "\<not> exist_ok"
            show "map_of fs p = None" by (rule n)
          next
            fix q' assume "path_mkdir fs1 p False exist_ok = Inl (FileExistsError q')"
            then have "map_of fs1 p \<noteq> None" using ih2 unfolding mkdir_post_def by blast
            then show "map_of fs p \<noteq> None" using n1 by simp
          qed
        qed
      qed
    qed
  qed
qed

definition nat_of_digits :: "string \<Rightarrow> nat" where
  "nat_of_digits s = foldl (\<lambda>a c. 10 * a + (of_char c - 48)) 0 s"

lemma nat_of_digits_str_nat: "nat_of_digits (str_nat n) = n"
proof (induction n rule: str_nat.induct)
  case (1 n)
  show ?case
  proof (cases "n < 10")
    case True
    then show ?thesis by (subst str_nat.simps) (simp add: nat_of_digits_def)
  next
    case False
    then have "nat_of_digits (str_nat (n div 10)) = n div 10" using 1 by simp
    moreover have "n mod 10 < 10" by simp
    ultimately show ?thesis
      using False by (subst str_nat.simps) (simp add: nat_of_digits_def)
  qed
qed

lemma inj_str_nat: "inj str_nat"
  by (rule inj_on_inverseI [where g = nat_of_digits]) (rule nat_of_digits_str_nat)

lemma digit_chars: "map digit_char [0..<10] = ''0123456789''"
  by code_simp

lemma digit_char_digit: "k < 10 \<Longrightarrow> digit_char k \<in> set ''0123456789''"
proof -
  assume "k < 10"
  then have "digit_char k \<in> set (map digit_char [0..<10])"
    by (simp only: set_map set_upt) (rule imageI, simp)
  then show ?thesis by (simp only: digit_chars)
qed

lemma str_nat_digits: "set (str_nat n) \<subseteq> set ''0123456789''"
proof (induction n rule: str_nat.induct)
  case (1 n)
  show ?case
  proof (cases "n < 10")
    case True
    then show ?thesis using digit_char_digit [of n] by (subst str_nat.simps) simp
  next
    case False
    have "n mod 10 < 10" by simp
    then show ?thesis
      using False 1 digit_char_digit [of "n mod 10"] by (subst str_nat.simps) simp
  qed
qed

lemma str_nat_no_sep: "CHR ''/'' \<notin> set (str_nat n)"
  using str_nat_digits [of n] by auto

lemma split_on_nonempty: "split_on c s \<noteq> []"
  by (induction s) (auto split: list.splits)

lemma split_on_no_sep: "c \<notin> set t \<Longrightarrow> split_on c t = [t]"
  by (induction t) (auto split: list.splits)

lemma split_on_append:
  "c \<notin> set t \<Longrightarrow> split_on c (s @ t) = butlast (split_on c s) @ [last (split_on c s) @ t]"
proof (induction s)
  case Nil
  then show ?case by (simp add: split_on_no_sep)
next
  case (Cons x xs)
  obtain z zs where z: "split_on c xs = z # zs"
    using split_on_nonempty [of c xs] by (cases "split_on c xs") auto
  show ?case
    using Cons z by (cases zs) (auto split: list.splits)
qed

lemma posix_root_append:
  assumes "CHR ''/'' \<notin> set t" and "t \<noteq> []"
  shows "posix_root (s @ t) = posix_root s"
proof -
  obtain a u where t: "t = a # u" "a \<noteq> CHR ''/''" using assms by (cases t) auto
  show ?thesis
  proof (cases s)
    case Nil
    then show ?thesis using t by (simp add: posix_root_def)
  next
    case s1: (Cons x xs)
    show ?thesis
    proof (cases xs)
      case Nil
      then show ?thesis using t s1 by (simp add: posix_root_def)
    next
      case s2: (Cons y ys)
      show ?thesis
      proof (cases ys)
        case Nil
        then show ?thesis using t s1 s2 by (simp add: posix_root_def)
      next
        case (Cons w ws)
        then show ?thesis using t s1 s2 by (simp add: posix_root_def)
      qed
    qed
  qed
qed

definition stem :: "path \<Rightarrow> string \<Rightarrow> path" where
  "stem base_dir name =
     (if posix_root name \<noteq> [] then [posix_root name] else base_dir)
     @ filter (\<lambda>part. part \<noteq> [] \<and> part \<noteq> ''.'') (butlast (split_on CHR ''/'' name))"

lemma truediv_suffix_gen:
  assumes "CHR ''/'' \<notin> set u" and "u \<noteq> []" and "hd u \<noteq> CHR ''.''"
  shows "truediv base_dir (name @ u) = stem base_dir name @ [last (split_on CHR ''/'' name) @ u]"
proof -
  have r: "posix_root (name @ u) = posix_root name"
    by (rule posix_root_append [OF assms(1,2)])
  have ne: "last (split_on CHR ''/'' name) @ u \<noteq> ''.''" "last (split_on CHR ''/'' name) @ u \<noteq> []"
    using assms(2,3) by (cases "last (split_on CHR ''/'' name)"; cases u; simp)+
  show ?thesis
    using ne by (simp add: truediv_def path_of_str_def r split_on_append [OF assms(1)] stem_def)
qed

lemma truediv_suffix:
  assumes "CHR ''/'' \<notin> set t"
  shows "truediv base_dir (name @ CHR ''_'' # t)
           = stem base_dir name @ [last (split_on CHR ''/'' name) @ CHR ''_'' # t]"
  using truediv_suffix_gen [of "CHR ''_'' # t" base_dir name] assms by simp

lemma truediv_bare:
  assumes "CHR ''/'' \<notin> set name" and "CHR ''/'' \<notin> set t"
  shows "truediv base_dir (name @ CHR ''_'' # t) = child base_dir (name @ CHR ''_'' # t)"
proof -
  have "posix_root name = []" using assms(1) by (cases name) (auto simp: posix_root_def)
  then show ?thesis
    using truediv_suffix [OF assms(2), of base_dir name] assms(1)
    by (simp add: stem_def split_on_no_sep child_def)
qed

definition probe_name :: "path \<Rightarrow> string \<Rightarrow> nat \<Rightarrow> path" where
  "probe_name base_dir name i = truediv base_dir (name @ ''_'' @ str_nat i)"

lemma inj_probe_name: "inj (probe_name base_dir name)"
proof (rule injI)
  fix i j assume "probe_name base_dir name i = probe_name base_dir name j"
  then have "str_nat i = str_nat j"
    by (simp add: probe_name_def truediv_suffix [OF str_nat_no_sep])
  then show "i = j" using inj_str_nat by (simp add: inj_def)
qed

lemma finite_probe_names: "finite {j. map_of fs (probe_name base_dir name j) \<noteq> None}"
proof -
  have "{j. map_of fs (probe_name base_dir name j) \<noteq> None}
      = probe_name base_dir name -` (fst ` set fs)"
    by (auto simp: map_of_eq_None_iff)
  then show ?thesis
    using finite_vimageI [OF _ inj_probe_name, of "fst ` set fs" base_dir name] by simp
qed

lemma path_mkdir_exists:
  "map_of fs p \<noteq> None \<Longrightarrow> path_mkdir fs p parents False = Inl (FileExistsError p)"
  by (subst path_mkdir.simps) (simp add: os_mkdir_exists is_FileNotFoundError_def)

lemma path_mkdir_EEXIST:
  "path_mkdir fs p parents exist_ok = Inl e \<Longrightarrow> is_FileExistsError e \<Longrightarrow> map_of fs p \<noteq> None"
  using path_mkdir_post [of fs p exist_ok parents]
  by (cases e) (auto simp: mkdir_post_def is_FileExistsError_def)

text \<open>
  The fallback loop of \<open>main\<close>: \<open>i = 1; while True: try mkdir base_dir/name_i; break;
  except FileExistsError: i += 1\<close>. The loop ends because the table of the file system
  is finite and the candidate names are pairwise distinct.
\<close>

function probe_backup_dir :: "fs \<Rightarrow> path \<Rightarrow> string \<Rightarrow> nat \<Rightarrow> py_error + fs \<times> path" where
  "probe_backup_dir fs base_dir name i =
     (let backup_dir = probe_name base_dir name i
      in case path_mkdir fs backup_dir True False of
           Inr fs' \<Rightarrow> Inr (fs', backup_dir)
         | Inl e \<Rightarrow>
             if is_FileExistsError e then probe_backup_dir fs base_dir name (i + 1) else Inl e)"
  by pat_completeness auto

termination
proof (relation "measure (\<lambda>(fs, base_dir, name, i).
         card {j. i \<le> j \<and> map_of fs (probe_name base_dir name j) \<noteq> None})", goal_cases)
  case 1
  show ?case by simp
next
  case (2 fs base_dir name i backup_dir e)
  then have here: "map_of fs (probe_name base_dir name i) \<noteq> None"
    using path_mkdir_EEXIST by blast
  let ?S = "\<lambda>i. {j. i \<le> j \<and> map_of fs (probe_name base_dir name j) \<noteq> None}"
  have fin: "finite (?S i)"
    using finite_probe_names [of fs base_dir name] by (rule rev_finite_subset) auto
  have "i \<in> ?S i" "i \<notin> ?S (i + 1)" "?S (i + 1) \<subseteq> ?S i" using here by auto
  then have "?S (i + 1) \<subset> ?S i" by blast
  then have "card (?S (i + 1)) < card (?S i)" using fin by (rule psubset_card_mono [rotated])
  then show ?case by simp
qed

declare probe_backup_dir.simps [simp del]

definition allocate_backup_dir ::
  "fs \<Rightarrow> path \<Rightarrow> string \<Rightarrow> datetime \<Rightarrow> py_error + fs \<times> path" where
  "allocate_backup_dir fs base_dir name now =
     (case create_unique_backup_dir fs base_dir name now of
        Inr r \<Rightarrow> Inr r
      | Inl e \<Rightarrow> if is_FileExistsError e then probe_backup_dir fs base_dir name 1 else Inl e)"

section \<open>Copying\<close>

text \<open>
  \<open>shutil.copy2\<close>: a destination that is a directory stands for the file of the same name
  inside it; source and destination must differ; the bytes are read, then written, and
  the mode of the source is given to the copy.
\<close>

definition open_wb :: "fs \<Rightarrow> path \<Rightarrow> string \<Rightarrow> py_error + fs" where
  "open_wb fs p bs =
     (case map_of fs p of
        Some (Dir w) \<Rightarrow> Inl (IsADirectoryError p)
      | Some (File c r) \<Rightarrow> Inr (AList.update p (File bs True) fs)
      | None \<Rightarrow>
          (case map_of fs (parent p) of
             None \<Rightarrow> Inl (FileNotFoundError p)
           | Some (File c r) \<Rightarrow> Inl (NotADirectoryError p)
           | Some (Dir w) \<Rightarrow>
               if w then Inr (AList.update p (File bs True) fs) else Inl (PermissionError p)))"

definition copy2 :: "fs \<Rightarrow> path \<Rightarrow> path \<Rightarrow> py_error + fs" where
  "copy2 fs src dst =
     (let dst' = (if is_dir fs dst = Inr True then child dst (name_of src) else dst)
      in if src = dst' then Inl (SameFileError src dst')
         else
           (case open_rb fs src of
              Inl e \<Rightarrow> Inl e
            | Inr bs \<Rightarrow> open_wb fs dst' bs))"

definition relative_to :: "path \<Rightarrow> path \<Rightarrow> py_error + path" where
  "relative_to p base =
     (if take (length base) p = base then Inr (drop (length base) p) else Inl (ValueError p base))"

text \<open>
  The copy loops carry the file system and the list \<open>copied_pairs\<close>. An exception leaves
  the function without a list. \<open>os.walk\<close> lists a directory only when it reaches it, while
  the loop body writes to the file system, so the walk is a loop over a stack of pending
  directories on the current file system, with fuel: \<open>Running\<close> is the state of a walk
  that has not ended within the fuel.
\<close>

type_synonym copy_state = "fs \<times> (path \<times> path) list"

datatype copy_result =
    Finished fs "(path \<times> path) list"
  | Raised py_error
  | Running fs "path list" "(path \<times> path) list"

fun records_of :: "copy_result \<Rightarrow> (path \<times> path) list" where
  "records_of (Finished fs copied_pairs) = copied_pairs"
| "records_of (Raised e) = []"
| "records_of (Running fs stack copied_pairs) = copied_pairs"

fun copy_items :: "path \<Rightarrow> string set \<Rightarrow> path list \<Rightarrow> copy_state \<Rightarrow> py_error + copy_state" where
  "copy_items dst_dir exclude_names [] st = Inr st"
| "copy_items dst_dir exclude_names (item # rest) (fs, copied_pairs) =
     (if name_of item \<in> exclude_names then copy_items dst_dir exclude_names rest (fs, copied_pairs)
      else
        (case is_file fs item of
           Inl e \<Rightarrow> Inl e
         | Inr isf \<Rightarrow>
             if \<not> isf then copy_items dst_dir exclude_names rest (fs, copied_pairs)
             else
               (let dst = child dst_dir (name_of item)
                in case copy2 fs item dst of
                     Inl e \<Rightarrow> Inl e
                   | Inr fs' \<Rightarrow>
                       copy_items dst_dir exclude_names rest (fs', copied_pairs @ [(item, dst)]))))"

definition copy_files_non_recursive :: "fs \<Rightarrow> path \<Rightarrow> path \<Rightarrow> string set \<Rightarrow> copy_result" where
  "copy_files_non_recursive fs src_dir dst_dir exclude_names =
     (case iterdir fs src_dir of
        Inl e \<Rightarrow> Raised e
      | Inr items \<Rightarrow>
          (case copy_items dst_dir exclude_names items (fs, []) of
             Inl e \<Rightarrow> Raised e
           | Inr (fs', copied_pairs) \<Rightarrow> Finished fs' copied_pairs))"

fun copy_dir_files ::
  "path \<Rightarrow> path \<Rightarrow> string set \<Rightarrow> string list \<Rightarrow> copy_state \<Rightarrow> py_error + copy_state" where
  "copy_dir_files root_path target_root exclude_names [] st = Inr st"
| "copy_dir_files root_path target_root exclude_names (fname # rest) (fs, copied_pairs) =
     (if fname \<in> exclude_names
      then copy_dir_files root_path target_root exclude_names rest (fs, copied_pairs)
      else
        (let src_file = child root_path fname; dst_file = child target_root fname
         in case copy2 fs src_file dst_file of
              Inl e \<Rightarrow> Inl e
            | Inr fs' \<Rightarrow>
                copy_dir_files root_path target_root exclude_names rest
                  (fs', copied_pairs @ [(src_file, dst_file)])))"

definition walk_body ::
  "path \<Rightarrow> path \<Rightarrow> string set \<Rightarrow> path \<Rightarrow> string list \<Rightarrow> copy_state \<Rightarrow> py_error + copy_state" where
  "walk_body src_dir dst_dir exclude_names root_path files st =
     (case relative_to root_path src_dir of
        Inl e \<Rightarrow> Inl e
      | Inr rel_root \<Rightarrow>
          if \<exists>part \<in> set (filter (\<lambda>part. part \<noteq> []) (parts rel_root)). part \<in> exclude_names
          then Inr st
          else
            (let target_root = joinpath dst_dir rel_root
             in case path_mkdir (fst st) target_root True True of
                  Inl e \<Rightarrow> Inl e
                | Inr fs1 \<Rightarrow> copy_dir_files root_path target_root exclude_names files (fs1, snd st)))"

fun copy_walk ::
  "nat \<Rightarrow> path \<Rightarrow> path \<Rightarrow> string set \<Rightarrow> path list \<Rightarrow> copy_state \<Rightarrow> copy_result" where
  "copy_walk fuel src_dir dst_dir exclude_names [] (fs, copied_pairs) = Finished fs copied_pairs"
| "copy_walk 0 src_dir dst_dir exclude_names (top_dir # stack) (fs, copied_pairs) =
     Running fs (top_dir # stack) copied_pairs"
| "copy_walk (Suc fuel) src_dir dst_dir exclude_names (top_dir # stack) (fs, copied_pairs) =
     (case os_scandir fs top_dir of
        Inl e \<Rightarrow> copy_walk fuel src_dir dst_dir exclude_names stack (fs, copied_pairs)
      | Inr es \<Rightarrow>
          (let dirs = map fst (filter snd es);
               files = map fst (filter (\<lambda>entry. \<not> snd entry) es)
           in case walk_body src_dir dst_dir exclude_names top_dir files (fs, copied_pairs) of
                Inl e \<Rightarrow> Raised e
              | Inr st \<Rightarrow>
                  copy_walk fuel src_dir dst_dir exclude_names (map (child top_dir) dirs @ stack) st))"

definition copy_files_recursive ::
  "nat \<Rightarrow> fs \<Rightarrow> path \<Rightarrow> path \<Rightarrow> string set \<Rightarrow> copy_result" where
  "copy_files_recursive fuel fs src_dir dst_dir exclude_names =
     copy_walk fuel src_dir dst_dir exclude_names [src_dir] (fs, [])"

section \<open>The run\<close>

text \<open>
  The inputs of \<open>main\<close>: the parsed options, where the script is, the clock, the line
  typed at the prompt (\<open>None\<close> at end of input) and the file system. Printing is left
  out. Characters are code points below 256.
\<close>

record args =
  opt_recursive :: bool
  opt_name :: string
  opt_delete :: bool
  opt_remove_empty_dirs :: bool
  opt_hash :: bool
  opt_force :: bool

record env =
  dunder_file :: "path option"
  cwd :: path
  argv0 :: path

definition determine_script_and_base_dir :: "env \<Rightarrow> path \<times> path" where
  "determine_script_and_base_dir e =
     (case dunder_file e of
        Some script_path \<Rightarrow> (script_path, parent script_path)
      | None \<Rightarrow>
          (let base_dir = cwd e; n = name_of (argv0 e)
           in (if n = [] then base_dir else child base_dir n, base_dir)))"

definition py_isspace :: "char \<Rightarrow> bool" where
  "py_isspace c = ((of_char c :: nat) \<in> {9, 10, 11, 12, 13, 28, 29, 30, 31, 32, 133, 160})"

definition py_strip :: "string \<Rightarrow> string" where
  "py_strip s = rev (dropWhile py_isspace (rev (dropWhile py_isspace s)))"

definition py_lower_char :: "char \<Rightarrow> char" where
  "py_lower_char c =
     (let n = (of_char c :: nat)
      in if (65 \<le> n \<and> n \<le> 90) \<or> (192 \<le> n \<and> n \<le> 222 \<and> n \<noteq> 215) then char_of (n + 32) else c)"

definition py_lower :: "string \<Rightarrow> string" where
  "py_lower s = map py_lower_char s"

datatype run =
    Fatal py_error
  | Diverged
  | NoFiles fs path
  | Kept fs path "(path \<times> path) list"
  | Aborted fs path "(path \<times> path) list"
  | Deleted fs path "(path \<times> path) list" "path list" "(path \<times> string) list"

definition main ::
  "nat \<Rightarrow> 'h hashlib \<Rightarrow> (path list \<Rightarrow> path list) \<Rightarrow> env \<Rightarrow> datetime \<Rightarrow> string option \<Rightarrow>
   args \<Rightarrow> fs \<Rightarrow> run"
where
  "main fuel hl set_iter e now stdin a fs =
     (case determine_script_and_base_dir e of (script_path, base_dir) \<Rightarrow>
      let script_name = name_of script_path
      in case allocate_backup_dir fs base_dir (opt_name a) now of
           Inl err \<Rightarrow> Fatal err
         | Inr (fs1, backup_dir) \<Rightarrow>
             let exclude = {name_of backup_dir, script_name}
             in case (if opt_recursive a
                      then copy_files_recursive fuel fs1 base_dir backup_dir exclude
                      else copy_files_non_recursive fs1 base_dir backup_dir exclude) of
                  Raised err \<Rightarrow> Fatal err
                | Running fs2 stack copied \<Rightarrow> Diverged
                | Finished fs2 copied \<Rightarrow>
                    if length copied = 0 then NoFiles fs2 backup_dir
                    else if opt_delete a then
                      (case (if \<not> opt_force a
                             then (case stdin of
                                     None \<Rightarrow> Inl EOFError
                                   | Some line \<Rightarrow> Inr (py_lower (py_strip line) = ''y''))
                             else Inr True) of
                         Inl err \<Rightarrow> Fatal err
                       | Inr confirmed \<Rightarrow>
                           if \<not> confirmed then Aborted fs2 backup_dir copied
                           else
                             (case delete_backed_files hl set_iter fs2 copied exclude
                                     (opt_hash a) (opt_remove_empty_dirs a) of
                                (fs3, deleted, failed) \<Rightarrow>
                                  Deleted fs3 backup_dir copied deleted failed))
                    else Kept fs2 backup_dir copied)"

section \<open>Notions used in the statements\<close>

text \<open>
  The digest of a byte string, \<open>hashlib.sha256(bs).hexdigest()\<close>, and what makes the
  library a streaming hash: feeding two chunks one after the other is feeding their
  concatenation, and feeding no byte changes nothing. Then a faithful iteration order of a
  Python set built from a list; a clock reading in the range of \<open>datetime\<close> with a
  four-digit year; a record that mirrors a relative path free of excluded names; a file
  system that keeps its entries outside a directory; and the part of \<open>main\<close> up to the
  end of the copy.
\<close>

definition sha256 :: "'h hashlib \<Rightarrow> string \<Rightarrow> string" where
  "sha256 hl bs = h_hexdigest hl (h_update hl (h_new hl) bs)"

definition streaming :: "'h hashlib \<Rightarrow> bool" where
  "streaming hl =
     ((\<forall>h a b. h_update hl (h_update hl h a) b = h_update hl h (a @ b)) \<and>
      (\<forall>h. h_update hl h [] = h))"

definition set_iteration :: "(path list \<Rightarrow> path list) \<Rightarrow> bool" where
  "set_iteration set_iter = (\<forall>xs. distinct (set_iter xs) \<and> set (set_iter xs) = set xs)"

definition valid_datetime :: "datetime \<Rightarrow> bool" where
  "valid_datetime t =
     (1000 \<le> year t \<and> year t \<le> 9999 \<and> 1 \<le> month t \<and> month t \<le> 12 \<and>
      1 \<le> day t \<and> day t \<le> 31 \<and> hour t < 24 \<and> minute t < 60 \<and> second t < 60)"

definition mirrored :: "path \<Rightarrow> path \<Rightarrow> string set \<Rightarrow> path \<times> path \<Rightarrow> bool" where
  "mirrored src_dir dst_dir exclude_names pair =
     (\<exists>rel. fst pair = joinpath src_dir rel \<and> snd pair = joinpath dst_dir rel \<and>
            set rel \<inter> exclude_names = {})"

definition outside_kept :: "path \<Rightarrow> fs \<Rightarrow> fs \<Rightarrow> bool" where
  "outside_kept d fs fs' =
     (\<forall>q. take (length d) q \<noteq> d \<longrightarrow> map_of fs q \<noteq> None \<longrightarrow> map_of fs' q = map_of fs q)"

definition copy_phase ::
  "nat \<Rightarrow> env \<Rightarrow> datetime \<Rightarrow> args \<Rightarrow> fs \<Rightarrow> py_error + (fs \<times> path) \<times> copy_result" where
  "copy_phase fuel e now a fs =
     (case determine_script_and_base_dir e of (script_path, base_dir) \<Rightarrow>
      case allocate_backup_dir fs base_dir (opt_name a) now of
        Inl err \<Rightarrow> Inl err
      | Inr (fs1, backup_dir) \<Rightarrow>
          Inr ((fs1, backup_dir),
               if opt_recursive a
               then copy_files_recursive fuel fs1 base_dir backup_dir
                      {name_of backup_dir, name_of script_path}
               else copy_files_non_recursive fs1 base_dir backup_dir
                      {name_of backup_dir, name_of script_path}))"

section \<open>Example inputs\<close>

definition toy_hashlib :: "string hashlib" where
  "toy_hashlib = \<lparr>h_new = [], h_update = (\<lambda>h bs. h @ bs), h_hexdigest = (\<lambda>h. h)\<rparr>"

definition demo_fs :: fs where
  "demo_fs =
     [([''/''], Dir True),
      ([''/'', ''src''], Dir True),
      ([''/'', ''src'', ''a.txt''], File ''hello'' True),
      ([''/'', ''src'', ''b.txt''], File ''abc'' True),
      ([''/'', ''src'', ''c.txt''], File ''xyz'' True),
      ([''/'', ''src'', ''backup_1''], Dir True),
      ([''/'', ''src'', ''backup_1'', ''a.txt''], File ''hello'' True),
      ([''/'', ''src'', ''backup_1'', ''b.txt''], File ''abcd'' True),
      ([''/'', ''src'', ''backup_1'', ''c.txt''], File ''xyz'' True)]"

definition demo_pairs :: "(path \<times> path) list" where
  "demo_pairs =
     [([''/'', ''src'', ''a.txt''], [''/'', ''src'', ''backup_1'', ''a.txt'']),
      ([''/'', ''src'', ''b.txt''], [''/'', ''src'', ''backup_1'', ''b.txt'']),
      ([''/'', ''src'', ''c.txt''], [''/'', ''src'', ''backup_1'', ''c.txt''])]"

text \<open>A copy of the same size with one byte changed, and a source that cannot be read.\<close>

definition damaged_fs :: fs where
  "damaged_fs =
     [([''/''], Dir True),
      ([''/'', ''src''], Dir True),
      ([''/'', ''src'', ''a.txt''], File ''hello'' True),
      ([''/'', ''src'', ''s.txt''], File ''secret'' False),
      ([''/'', ''src'', ''backup_1''], Dir True),
      ([''/'', ''src'', ''backup_1'', ''a.txt''], File ''hellO'' True),
      ([''/'', ''src'', ''backup_1'', ''s.txt''], File ''secret'' True)]"

definition ro_fs :: fs where
  "ro_fs =
     [([''/''], Dir True),
      ([''/'', ''src''], Dir True),
      ([''/'', ''src'', ''ro''], Dir False),
      ([''/'', ''src'', ''ro'', ''x.txt''], File ''x'' True),
      ([''/'', ''src'', ''y.txt''], File ''yy'' True),
      ([''/'', ''src'', ''backup_1''], Dir True),
      ([''/'', ''src'', ''backup_1'', ''ro''], Dir True),
      ([''/'', ''src'', ''backup_1'', ''ro'', ''x.txt''], File ''x'' True),
      ([''/'', ''src'', ''backup_1'', ''y.txt''], File ''yy'' True)]"

definition ro_pairs :: "(path \<times> path) list" where
  "ro_pairs =
     [([''/'', ''src'', ''ro'', ''x.txt''], [''/'', ''src'', ''backup_1'', ''ro'', ''x.txt'']),
      ([''/'', ''src'', ''y.txt''], [''/'', ''src'', ''backup_1'', ''y.txt''])]"

definition deep_fs :: fs where
  "deep_fs =
     [([''/''], Dir True),
      ([''/'', ''src''], Dir True),
      ([''/'', ''src'', ''d1''], Dir True),
      ([''/'', ''src'', ''d1'', ''g.txt''], File ''gg'' True),
      ([''/'', ''src'', ''d1'', ''d2''], Dir True),
      ([''/'', ''src'', ''d1'', ''d2'', ''f.txt''], File ''f'' True),
      ([''/'', ''src'', ''backup_1''], Dir True),
      ([''/'', ''src'', ''backup_1'', ''d1''], Dir True),
      ([''/'', ''src'', ''backup_1'', ''d1'', ''g.txt''], File ''gg'' True),
      ([''/'', ''src'', ''backup_1'', ''d1'', ''d2''], Dir True),
      ([''/'', ''src'', ''backup_1'', ''d1'', ''d2'', ''f.txt''], File ''f'' True)]"

definition deep_pairs :: "(path \<times> path) list" where
  "deep_pairs =
     [([''/'', ''src'', ''d1'', ''g.txt''], [''/'', ''src'', ''backup_1'', ''d1'', ''g.txt'']),
      ([''/'', ''src'', ''d1'', ''d2'', ''f.txt''],
       [''/'', ''src'', ''backup_1'', ''d1'', ''d2'', ''f.txt''])]"

definition nested_fs :: fs where
  "nested_fs =
     [([''/''], Dir True),
      ([''/'', ''backup_1''], Dir True),
      ([''/'', ''backup_1'', ''proj''], Dir True),
      ([''/'', ''backup_1'', ''proj'', ''a.txt''], File ''hello'' True),
      ([''/'', ''backup_1'', ''proj'', ''backup_1''], Dir True),
      ([''/'', ''backup_1'', ''proj'', ''backup_1'', ''a.txt''], File ''hello'' True)]"

definition nested_pairs :: "(path \<times> path) list" where
  "nested_pairs =
     [([''/'', ''backup_1'', ''proj'', ''a.txt''],
       [''/'', ''backup_1'', ''proj'', ''backup_1'', ''a.txt''])]"

definition demo_now :: datetime where
  "demo_now = \<lparr>year = 2026, month = 11, day = 4, hour = 9, minute = 5, second = 0\<rparr>"

definition file_stamped_fs :: fs where
  "file_stamped_fs =
     [([''/''], Dir True),
      ([''/'', ''src''], Dir True),
      ([''/'', ''src'', ''a.txt''], File ''hello'' True),
      ([''/'', ''src'', ''backup_20261104_090500''], File ''x'' True)]"

definition stamped_fs :: fs where
  "stamped_fs = demo_fs @ [([''/'', ''src'', ''backup_20261104_090500''], Dir True)]"

definition tree_fs :: fs where
  "tree_fs =
     [([''/''], Dir True),
      ([''/'', ''src''], Dir True),
      ([''/'', ''src'', ''final_backup.py''], File ''#!py'' True),
      ([''/'', ''src'', ''a.txt''], File ''hello'' True),
      ([''/'', ''src'', ''sub''], Dir True),
      ([''/'', ''src'', ''sub'', ''b.txt''], File ''abc'' True),
      ([''/'', ''src'', ''sub'', ''backup_1''], Dir True),
      ([''/'', ''src'', ''sub'', ''backup_1'', ''old.txt''], File ''old'' True),
      ([''/'', ''src'', ''backup_1''], Dir True)]"

definition script_env :: env where
  "script_env = \<lparr>dunder_file = Some [''/'', ''src'', ''final_backup.py''], cwd = [''/''],
                  argv0 = [''final_backup.py'']\<rparr>"

definition start_fs :: fs where
  "start_fs =
     [([''/''], Dir True),
      ([''/'', ''src''], Dir True),
      ([''/'', ''src'', ''final_backup.py''], File ''#!py'' True),
      ([''/'', ''src'', ''a.txt''], File ''hello'' True),
      ([''/'', ''src'', ''sub''], Dir True),
      ([''/'', ''src'', ''sub'', ''b.txt''], File ''abc'' True)]"

definition delete_args :: args where
  "delete_args = \<lparr>opt_recursive = True, opt_name = ''backup'', opt_delete = True,
                   opt_remove_empty_dirs = True, opt_hash = True, opt_force = False\<rparr>"

definition backed_up_fs :: fs where
  "backed_up_fs =
     start_fs @
     [([''/'', ''src'', ''backup_20261104_090500''], Dir True),
      ([''/'', ''src'', ''backup_20261104_090500'', ''a.txt''], File ''hello'' True),
      ([''/'', ''src'', ''backup_20261104_090500'', ''sub''], Dir True),
      ([''/'', ''src'', ''backup_20261104_090500'', ''sub'', ''b.txt''], File ''abc'' True)]"

definition backed_up_pairs :: "(path \<times> path) list" where
  "backed_up_pairs =
     [([''/'', ''src'', ''a.txt''], [''/'', ''src'', ''backup_20261104_090500'', ''a.txt'']),
      ([''/'', ''src'', ''sub'', ''b.txt''],
       [''/'', ''src'', ''backup_20261104_090500'', ''sub'', ''b.txt''])]"

definition tree_copied_fs :: fs where
  "tree_copied_fs =
     tree_fs @
     [([''/'', ''src'', ''backup_1'', ''a.txt''], File ''hello'' True),
      ([''/'', ''src'', ''backup_1'', ''sub''], Dir True),
      ([''/'', ''src'', ''backup_1'', ''sub'', ''b.txt''], File ''abc'' True)]"

section \<open>The deletion loop\<close>

lemma delete_loop_Nil [simp]: "delete_loop hl ex uh [] st = st"
  by (simp add: delete_loop_def)

lemma delete_loop_snoc:
  "delete_loop hl ex uh (recs @ [r]) st = delete_body hl ex uh (delete_loop hl ex uh recs st) r"
  by (simp add: delete_loop_def)

lemma delete_loop_Cons:
  "delete_loop hl ex uh (r # recs) st = delete_loop hl ex uh recs (delete_body hl ex uh st r)"
  by (simp add: delete_loop_def)

lemma delete_loop_append:
  "delete_loop hl ex uh (pre @ suf) st = delete_loop hl ex uh suf (delete_loop hl ex uh pre st)"
  by (simp add: delete_loop_def)

text \<open>The four ways through the loop body.\<close>

lemma delete_body_cases:
  obtains
    (excluded) "excluded_path ex src"
      "delete_body hl ex uh (fs, del, fl) (src, dst) = (fs, del, fl @ [(src, ''excluded'')])"
  | (unverified) "\<not> excluded_path ex src" "\<not> verify_pair hl fs src dst uh"
      "delete_body hl ex uh (fs, del, fl) (src, dst) = (fs, del, fl @ [(src, ''verification_failed'')])"
  | (deleted) fs' where "\<not> excluded_path ex src" "verify_pair hl fs src dst uh"
      "os_unlink fs src = Inr fs'"
      "delete_body hl ex uh (fs, del, fl) (src, dst) = (fs', del @ [src], fl)"
  | (delete_error) e where "\<not> excluded_path ex src" "verify_pair hl fs src dst uh"
      "os_unlink fs src = Inl e"
      "delete_body hl ex uh (fs, del, fl) (src, dst) =
         (fs, del, fl @ [(src, ''delete_error:'' @ str_of_error e)])"
proof (cases "excluded_path ex src")
  case True
  then show ?thesis using excluded by (simp add: delete_body_def)
next
  case ne: False
  show ?thesis
  proof (cases "verify_pair hl fs src dst uh")
    case False
    then show ?thesis using ne unverified by (simp add: delete_body_def)
  next
    case ok: True
    show ?thesis
    proof (cases "os_unlink fs src")
      case (Inl e)
      then show ?thesis using ne ok delete_error by (simp add: delete_body_def)
    next
      case (Inr fs')
      then show ?thesis using ne ok deleted by (simp add: delete_body_def)
    qed
  qed
qed

lemma delete_loop_partition:
  "\<exists>keep. length keep = length recs \<and>
     fst (snd (delete_loop hl ex uh recs (fs, [], [])))
       = map (fst \<circ> fst) (filter snd (zip recs keep)) \<and>
     map fst (snd (snd (delete_loop hl ex uh recs (fs, [], []))))
       = map (fst \<circ> fst) (filter (\<lambda>x. \<not> snd x) (zip recs keep))"
proof (induction recs rule: rev_induct)
  case Nil
  show ?case by simp
next
  case (snoc r recs)
  then obtain keep where k: "length keep = length recs"
    and d: "fst (snd (delete_loop hl ex uh recs (fs, [], [])))
       = map (fst \<circ> fst) (filter snd (zip recs keep))"
    and f: "map fst (snd (snd (delete_loop hl ex uh recs (fs, [], []))))
       = map (fst \<circ> fst) (filter (\<lambda>x. \<not> snd x) (zip recs keep))"
    by blast
  obtain fs1 del fl where st: "delete_loop hl ex uh recs (fs, [], []) = (fs1, del, fl)"
    by (cases "delete_loop hl ex uh recs (fs, [], [])") auto
  obtain src dst where r: "r = (src, dst)" by (cases r)
  have "\<exists>b. fst (snd (delete_body hl ex uh (fs1, del, fl) (src, dst)))
            = del @ (if b then [src] else []) \<and>
          map fst (snd (snd (delete_body hl ex uh (fs1, del, fl) (src, dst))))
            = map fst fl @ (if b then [] else [src])"
  proof (cases rule: delete_body_cases [where ex=ex and src=src and hl=hl and fs=fs1 and del=del and fl=fl and dst=dst and uh=uh])
    case excluded
    then show ?thesis by (intro exI [of _ False]) simp
  next
    case unverified
    then show ?thesis by (intro exI [of _ False]) simp
  next
    case (deleted fs')
    then show ?thesis by (intro exI [of _ True]) simp
  next
    case (delete_error e)
    then show ?thesis by (intro exI [of _ False]) simp
  qed
  then obtain b where
    b1: "fst (snd (delete_body hl ex uh (fs1, del, fl) (src, dst))) = del @ (if b then [src] else [])"
    and b2: "map fst (snd (snd (delete_body hl ex uh (fs1, del, fl) (src, dst))))
            = map fst fl @ (if b then [] else [src])"
    by blast
  show ?case
    apply (rule exI [of _ "keep @ [b]"])
    using k d f b1 b2 by (simp add: delete_loop_snoc st r)
qed

text \<open>
  C9. \<open>delete_backed_files\<close> partitions the records: some choice of one flag per record
  sends the record's source to \<open>deleted\<close> (flag set) or to \<open>failed\<close> (flag clear), each
  list keeping the order of the input, so the two lengths add up to the number of records.
\<close>

theorem delete_backed_files_partition:
  "\<exists>keep. length keep = length copied_pairs \<and>
     fst (snd (delete_backed_files hl set_iter fs copied_pairs ex uh red))
       = map (fst \<circ> fst) (filter snd (zip copied_pairs keep)) \<and>
     map fst (snd (snd (delete_backed_files hl set_iter fs copied_pairs ex uh red)))
       = map (fst \<circ> fst) (filter (\<lambda>x. \<not> snd x) (zip copied_pairs keep)) \<and>
     length (fst (snd (delete_backed_files hl set_iter fs copied_pairs ex uh red)))
       + length (snd (snd (delete_backed_files hl set_iter fs copied_pairs ex uh red)))
       = length copied_pairs"
proof -
  obtain keep where k: "length keep = length copied_pairs"
    and d: "fst (snd (delete_loop hl ex uh copied_pairs (fs, [], [])))
       = map (fst \<circ> fst) (filter snd (zip copied_pairs keep))"
    and f: "map fst (snd (snd (delete_loop hl ex uh copied_pairs (fs, [], []))))
       = map (fst \<circ> fst) (filter (\<lambda>x. \<not> snd x) (zip copied_pairs keep))"
    using delete_loop_partition [of copied_pairs hl ex uh fs] by blast
  have dd: "fst (snd (delete_backed_files hl set_iter fs copied_pairs ex uh red))
      = fst (snd (delete_loop hl ex uh copied_pairs (fs, [], [])))"
    by (simp add: delete_backed_files_def split: prod.splits)
  have ff: "snd (snd (delete_backed_files hl set_iter fs copied_pairs ex uh red))
      = snd (snd (delete_loop hl ex uh copied_pairs (fs, [], [])))"
    by (simp add: delete_backed_files_def split: prod.splits)
  have "length (filter snd (zip copied_pairs keep))
      + length (filter (\<lambda>x. \<not> snd x) (zip copied_pairs keep))
      = length (zip copied_pairs keep)"
    by (simp add: sum_length_filter_compl)
  moreover have "length (fst (snd (delete_loop hl ex uh copied_pairs (fs, [], []))))
      = length (filter snd (zip copied_pairs keep))"
    by (simp add: d)
  moreover have "length (snd (snd (delete_loop hl ex uh copied_pairs (fs, [], []))))
      = length (filter (\<lambda>x. \<not> snd x) (zip copied_pairs keep))"
    using arg_cong [OF f, of length] by simp
  ultimately have "length (fst (snd (delete_loop hl ex uh copied_pairs (fs, [], []))))
      + length (snd (snd (delete_loop hl ex uh copied_pairs (fs, [], []))))
      = length copied_pairs"
    using k by simp
  then show ?thesis
    using k d f by (intro exI [of _ keep]) (simp add: dd ff)
qed

theorem delete_backed_files_partition_witness:
  "snd (delete_backed_files toy_hashlib remdups demo_fs demo_pairs
          {''backup_1'', ''final_backup.py''} True False)
     = ([[''/'', ''src'', ''a.txt''], [''/'', ''src'', ''c.txt'']],
        [([''/'', ''src'', ''b.txt''], ''verification_failed'')]) \<and>
   (\<exists>keep. length keep = length demo_pairs \<and>
     fst (snd (delete_backed_files toy_hashlib remdups demo_fs demo_pairs
                {''backup_1'', ''final_backup.py''} True False))
       = map (fst \<circ> fst) (filter snd (zip demo_pairs keep)) \<and>
     map fst (snd (snd (delete_backed_files toy_hashlib remdups demo_fs demo_pairs
                {''backup_1'', ''final_backup.py''} True False)))
       = map (fst \<circ> fst) (filter (\<lambda>x. \<not> snd x) (zip demo_pairs keep)) \<and>
     length (fst (snd (delete_backed_files toy_hashlib remdups demo_fs demo_pairs
                {''backup_1'', ''final_backup.py''} True False)))
       + length (snd (snd (delete_backed_files toy_hashlib remdups demo_fs demo_pairs
                {''backup_1'', ''final_backup.py''} True False)))
       = length demo_pairs)"
proof
  show "snd (delete_backed_files toy_hashlib remdups demo_fs demo_pairs
          {''backup_1'', ''final_backup.py''} True False)
     = ([[''/'', ''src'', ''a.txt''], [''/'', ''src'', ''c.txt'']],
        [([''/'', ''src'', ''b.txt''], ''verification_failed'')])"
    by code_simp
qed (rule delete_backed_files_partition)

lemma delete_loop_acc:
  "delete_loop hl ex uh recs (fs, d, f) =
     (case delete_loop hl ex uh recs (fs, [], []) of (fs', d', f') \<Rightarrow> (fs', d @ d', f @ f'))"
proof (induction recs rule: rev_induct)
  case Nil
  show ?case by simp
next
  case (snoc r recs)
  obtain fs1 d1 f1 where st: "delete_loop hl ex uh recs (fs, [], []) = (fs1, d1, f1)"
    by (cases "delete_loop hl ex uh recs (fs, [], [])") auto
  obtain src dst where r: "r = (src, dst)" by (cases r)
  have body: "delete_body hl ex uh (fs1, d @ d1, f @ f1) (src, dst) =
     (case delete_body hl ex uh (fs1, d1, f1) (src, dst) of (fs', d', f') \<Rightarrow> (fs', d @ d', f @ f'))"
    by (simp add: delete_body_def split: sum.splits)
  show ?case
    by (simp add: delete_loop_snoc snoc.IH st r body split: prod.splits)
qed

lemma os_unlink_map_of:
  "os_unlink fs p = Inr fs' \<Longrightarrow> map_of fs' q = (if q = p then None else map_of fs q)"
  by (auto simp: os_unlink_def AList.delete_conv' split: option.splits node.splits if_splits)

lemma delete_loop_sound:
  assumes "delete_loop hl ex uh recs (fs, [], []) = (fs', deleted, failed)"
  shows "(\<forall>p \<in> set deleted. \<exists>pre dst suf. recs = pre @ (p, dst) # suf \<and>
            \<not> excluded_path ex p \<and>
            verify_pair hl (fst (delete_loop hl ex uh pre (fs, [], []))) p dst uh) \<and>
         (\<forall>q. map_of fs' q \<noteq> map_of fs q \<longrightarrow> q \<in> set deleted)"
  using assms
proof (induction recs arbitrary: fs' deleted failed rule: rev_induct)
  case Nil
  then show ?case by simp
next
  case (snoc r recs)
  obtain fs1 d1 f1 where st: "delete_loop hl ex uh recs (fs, [], []) = (fs1, d1, f1)"
    by (cases "delete_loop hl ex uh recs (fs, [], [])") auto
  obtain src dst where r: "r = (src, dst)" by (cases r)
  have ih1: "\<forall>p \<in> set d1. \<exists>pre dst suf. recs = pre @ (p, dst) # suf \<and>
            \<not> excluded_path ex p \<and>
            verify_pair hl (fst (delete_loop hl ex uh pre (fs, [], []))) p dst uh"
    and ih2: "\<forall>q. map_of fs1 q \<noteq> map_of fs q \<longrightarrow> q \<in> set d1"
    using snoc.IH [OF st] by blast+
  have lift: "\<exists>pre dst suf. recs @ [r] = pre @ (p, dst) # suf \<and>
            \<not> excluded_path ex p \<and>
            verify_pair hl (fst (delete_loop hl ex uh pre (fs, [], []))) p dst uh"
    if "p \<in> set d1" for p
  proof -
    from ih1 that obtain pre dst suf where "recs = pre @ (p, dst) # suf"
      "\<not> excluded_path ex p"
      "verify_pair hl (fst (delete_loop hl ex uh pre (fs, [], []))) p dst uh"
      by blast
    then show ?thesis
      by (intro exI [of _ pre] exI [of _ dst] exI [of _ "suf @ [r]"]) simp
  qed
  have step: "delete_body hl ex uh (fs1, d1, f1) (src, dst) = (fs', deleted, failed)"
    using snoc.prems by (simp add: delete_loop_snoc st r)
  show ?case
  proof (cases rule: delete_body_cases [where ex=ex and src=src and hl=hl and fs=fs1
        and del=d1 and fl=f1 and dst=dst and uh=uh])
    case excluded
    with step have "fs' = fs1" "deleted = d1" by simp_all
    then show ?thesis using lift ih2 by blast
  next
    case unverified
    with step have "fs' = fs1" "deleted = d1" by simp_all
    then show ?thesis using lift ih2 by blast
  next
    case (delete_error e)
    with step have "fs' = fs1" "deleted = d1" by simp_all
    then show ?thesis using lift ih2 by blast
  next
    case (deleted fs2)
    with step have eq: "fs' = fs2" "deleted = d1 @ [src]" by simp_all
    have new: "\<exists>pre dst' suf. recs @ [r] = pre @ (src, dst') # suf \<and>
            \<not> excluded_path ex src \<and>
            verify_pair hl (fst (delete_loop hl ex uh pre (fs, [], []))) src dst' uh"
      using deleted(1,2) by (intro exI [of _ recs] exI [of _ dst] exI [of _ "[]"]) (simp add: r st)
    have frame: "map_of fs2 q = (if q = src then None else map_of fs1 q)" for q
      using os_unlink_map_of [OF deleted(3)] .
    show ?thesis
    proof (intro conjI ballI allI impI)
      fix p assume "p \<in> set deleted"
      then have "p \<in> set d1 \<or> p = src" by (auto simp: eq)
      then show "\<exists>pre dst suf. recs @ [r] = pre @ (p, dst) # suf \<and>
            \<not> excluded_path ex p \<and>
            verify_pair hl (fst (delete_loop hl ex uh pre (fs, [], []))) p dst uh"
        using lift new by blast
    next
      fix q assume "map_of fs' q \<noteq> map_of fs q"
      then show "q \<in> set deleted"
        using ih2 frame [of q] by (auto simp: eq split: if_splits)
    qed
  qed
qed

lemma dbf_lists:
  "snd (delete_backed_files hl set_iter fs copied_pairs ex uh red)
     = snd (delete_loop hl ex uh copied_pairs (fs, [], []))"
  by (simp add: delete_backed_files_def split: prod.splits)

lemma dbf_fs_no_prune:
  "fst (delete_backed_files hl set_iter fs copied_pairs ex uh False)
     = fst (delete_loop hl ex uh copied_pairs (fs, [], []))"
  by (simp add: delete_backed_files_def split: prod.splits)

text \<open>
  C1. Every path in the \<open>deleted\<close> list is the source of a record of the input that was
  not excluded and for which \<open>verify_pair\<close>, called with the run's \<open>use_hash\<close> on the file
  system as the loop had left it when it reached the record, returned true. And the loop
  changes the file system at no other path: a path whose node differs after the loop is in
  \<open>deleted\<close>.
\<close>

theorem deleted_only_after_pass:
  "(\<forall>p \<in> set (fst (snd (delete_backed_files hl set_iter fs copied_pairs ex uh red))).
      \<exists>pre dst suf. copied_pairs = pre @ (p, dst) # suf \<and>
         \<not> excluded_path ex p \<and>
         verify_pair hl (fst (delete_loop hl ex uh pre (fs, [], []))) p dst uh) \<and>
   (\<forall>q. map_of (fst (delete_backed_files hl set_iter fs copied_pairs ex uh False)) q \<noteq> map_of fs q
      \<longrightarrow> q \<in> set (fst (snd (delete_backed_files hl set_iter fs copied_pairs ex uh False))))"
proof -
  obtain fs' deleted failed where
    st: "delete_loop hl ex uh copied_pairs (fs, [], []) = (fs', deleted, failed)"
    by (cases "delete_loop hl ex uh copied_pairs (fs, [], [])") auto
  show ?thesis
    using delete_loop_sound [OF st] by (simp add: dbf_lists dbf_fs_no_prune st)
qed

theorem deleted_only_after_pass_witness:
  "fst (snd (delete_backed_files toy_hashlib remdups demo_fs demo_pairs
               {''backup_1'', ''final_backup.py''} True False))
     = [[''/'', ''src'', ''a.txt''], [''/'', ''src'', ''c.txt'']] \<and>
   (\<exists>pre dst suf. demo_pairs = pre @ ([''/'', ''src'', ''c.txt''], dst) # suf \<and>
      \<not> excluded_path {''backup_1'', ''final_backup.py''} [''/'', ''src'', ''c.txt''] \<and>
      verify_pair toy_hashlib
        (fst (delete_loop toy_hashlib {''backup_1'', ''final_backup.py''} True pre (demo_fs, [], [])))
        [''/'', ''src'', ''c.txt''] dst True)"
proof -
  have d: "fst (snd (delete_backed_files toy_hashlib remdups demo_fs demo_pairs
               {''backup_1'', ''final_backup.py''} True False))
     = [[''/'', ''src'', ''a.txt''], [''/'', ''src'', ''c.txt'']]"
    by code_simp
  then have "[''/'', ''src'', ''c.txt''] \<in> set (fst (snd (delete_backed_files toy_hashlib remdups
       demo_fs demo_pairs {''backup_1'', ''final_backup.py''} True False)))"
    by simp
  with deleted_only_after_pass [of toy_hashlib remdups demo_fs demo_pairs
       "{''backup_1'', ''final_backup.py''}" True False]
  show ?thesis using d by blast
qed

lemma delete_loop_all_excluded:
  assumes "\<forall>r \<in> set recs. excluded_path ex (fst r)"
  shows "delete_loop hl ex uh recs (fs, [], []) = (fs, [], map (\<lambda>r. (fst r, ''excluded'')) recs)"
  using assms
proof (induction recs rule: rev_induct)
  case Nil
  show ?case by simp
next
  case (snoc r recs)
  obtain src dst where r: "r = (src, dst)" by (cases r)
  have "excluded_path ex src" using snoc.prems r by simp
  moreover have "delete_loop hl ex uh recs (fs, [], []) =
      (fs, [], map (\<lambda>r. (fst r, ''excluded'')) recs)"
    using snoc by simp
  ultimately show ?case
    by (simp add: delete_loop_snoc r delete_body_def)
qed

lemma excluded_path_under:
  assumes "\<exists>seg \<in> set (parts root). seg \<in> ex" and "take (length root) src = root"
  shows "excluded_path ex src"
proof -
  from assms(1) obtain seg where "seg \<in> set root" "seg \<in> ex" by (auto simp: parts_def)
  moreover have "set root \<subseteq> set src"
    using assms(2) set_take_subset [of "length root" src] by simp
  ultimately show ?thesis by (auto simp: excluded_path_def parts_def)
qed

text \<open>
  C10. The safety check of \<open>delete_backed_files\<close> looks at every part of the source path,
  the parts of the source root included. When a part of the source root is an excluded
  name, every record below that root is marked failed with reason \<open>excluded\<close>, nothing is
  deleted and the file system is left as it was.
\<close>

theorem excluded_ancestor_blocks_all:
  assumes "\<exists>seg \<in> set (parts source_root). seg \<in> exclude_names"
    and "\<forall>r \<in> set copied_pairs. take (length source_root) (fst r) = source_root"
    and "set_iter [] = []"
  shows "delete_backed_files hl set_iter fs copied_pairs exclude_names use_hash red
           = (fs, [], map (\<lambda>r. (fst r, ''excluded'')) copied_pairs)"
proof -
  have "\<forall>r \<in> set copied_pairs. excluded_path exclude_names (fst r)"
    using assms(1,2) excluded_path_under by blast
  then have "delete_loop hl exclude_names use_hash copied_pairs (fs, [], [])
      = (fs, [], map (\<lambda>r. (fst r, ''excluded'')) copied_pairs)"
    by (rule delete_loop_all_excluded)
  then show ?thesis
    by (simp add: delete_backed_files_def prune_candidates_def prune_loop_def assms(3))
qed

theorem excluded_ancestor_blocks_all_witness:
  "verify_pair toy_hashlib nested_fs [''/'', ''backup_1'', ''proj'', ''a.txt'']
     [''/'', ''backup_1'', ''proj'', ''backup_1'', ''a.txt''] True \<and>
   delete_backed_files toy_hashlib remdups nested_fs nested_pairs
       {''backup_1'', ''final_backup.py''} True True
     = (nested_fs, [], [([''/'', ''backup_1'', ''proj'', ''a.txt''], ''excluded'')])"
proof
  show "verify_pair toy_hashlib nested_fs [''/'', ''backup_1'', ''proj'', ''a.txt'']
     [''/'', ''backup_1'', ''proj'', ''backup_1'', ''a.txt''] True"
    by code_simp
next
  have "delete_backed_files toy_hashlib remdups nested_fs nested_pairs
       {''backup_1'', ''final_backup.py''} True True
     = (nested_fs, [], map (\<lambda>r. (fst r, ''excluded'')) nested_pairs)"
    by (rule excluded_ancestor_blocks_all [where source_root = "[''/'', ''backup_1'', ''proj'']"])
       (simp_all add: parts_def nested_pairs_def)
  then show "delete_backed_files toy_hashlib remdups nested_fs nested_pairs
       {''backup_1'', ''final_backup.py''} True True
     = (nested_fs, [], [([''/'', ''backup_1'', ''proj'', ''a.txt''], ''excluded'')])"
    by (simp add: nested_pairs_def)
qed

lemma delete_loop_lengths:
  "length (fst (snd (delete_loop hl ex uh recs (fs, [], []))))
     + length (snd (snd (delete_loop hl ex uh recs (fs, [], [])))) = length recs"
proof -
  obtain keep where k: "length keep = length recs"
    and d: "fst (snd (delete_loop hl ex uh recs (fs, [], [])))
       = map (fst \<circ> fst) (filter snd (zip recs keep))"
    and f: "map fst (snd (snd (delete_loop hl ex uh recs (fs, [], []))))
       = map (fst \<circ> fst) (filter (\<lambda>x. \<not> snd x) (zip recs keep))"
    using delete_loop_partition [of recs hl ex uh fs] by blast
  have "length (filter snd (zip recs keep))
      + length (filter (\<lambda>x. \<not> snd x) (zip recs keep)) = length (zip recs keep)"
    by (simp add: sum_length_filter_compl)
  moreover have "length (fst (snd (delete_loop hl ex uh recs (fs, [], []))))
      = length (filter snd (zip recs keep))"
    by (simp add: d)
  moreover have "length (snd (snd (delete_loop hl ex uh recs (fs, [], []))))
      = length (filter (\<lambda>x. \<not> snd x) (zip recs keep))"
    using arg_cong [OF f, of length] by simp
  ultimately show ?thesis using k by simp
qed

lemma delete_loop_split:
  assumes "delete_loop hl ex uh pre (fs, [], []) = (fs1, del1, fl1)"
    and "delete_body hl ex uh (fs1, del1, fl1) r = (fs2, del1 @ d, fl1 @ f)"
  shows "snd (delete_loop hl ex uh (pre @ r # suf) (fs, [], []))
     = (del1 @ d @ fst (snd (delete_loop hl ex uh suf (fs2, [], []))),
        fl1 @ f @ snd (snd (delete_loop hl ex uh suf (fs2, [], []))))"
proof -
  have "delete_loop hl ex uh (pre @ r # suf) (fs, [], [])
      = delete_loop hl ex uh suf (fs2, del1 @ d, fl1 @ f)"
    using assms by (simp add: delete_loop_append delete_loop_Cons)
  then show ?thesis
    by (simp add: delete_loop_acc [of hl ex uh suf fs2 "del1 @ d" "fl1 @ f"] split: prod.splits)
qed

text \<open>
  C4. When the loop reaches a record that is not excluded and verifies, and deleting its
  source raises, the error is caught there: the record goes to \<open>failed\<close> with the reason
  \<open>delete_error:\<close> followed by the message of the error, the file system is as it was, and
  the records after it are processed from that file system, each of them ending in
  \<open>deleted\<close> or in \<open>failed\<close>.
\<close>

theorem delete_error_isolated:
  assumes "copied_pairs = pre @ (src, dst) # suf"
    and "delete_loop hl ex uh pre (fs, [], []) = (fs1, del1, fl1)"
    and "\<not> excluded_path ex src"
    and "verify_pair hl fs1 src dst uh"
    and "os_unlink fs1 src = Inl e"
  shows "snd (delete_backed_files hl set_iter fs copied_pairs ex uh red)
     = (del1 @ fst (snd (delete_loop hl ex uh suf (fs1, [], []))),
        fl1 @ [(src, ''delete_error:'' @ str_of_error e)]
            @ snd (snd (delete_loop hl ex uh suf (fs1, [], [])))) \<and>
     length (fst (snd (delete_loop hl ex uh suf (fs1, [], []))))
       + length (snd (snd (delete_loop hl ex uh suf (fs1, [], [])))) = length suf"
proof -
  have body: "delete_body hl ex uh (fs1, del1, fl1) (src, dst)
      = (fs1, del1 @ [], fl1 @ [(src, ''delete_error:'' @ str_of_error e)])"
    using assms(3-5) by (simp add: delete_body_def)
  show ?thesis
    using delete_loop_split [OF assms(2) body, of suf] delete_loop_lengths [of hl ex uh suf fs1]
    by (simp add: dbf_lists assms(1))
qed

theorem delete_error_isolated_witness:
  "snd (delete_backed_files toy_hashlib remdups ro_fs ro_pairs
         {''backup_1'', ''final_backup.py''} True False)
     = ([[''/'', ''src'', ''y.txt'']],
        [([''/'', ''src'', ''ro'', ''x.txt''],
          ''delete_error:[Errno 13] Permission denied: '' @ quoted ''/src/ro/x.txt'')])"
proof -
  have 1: "ro_pairs = [] @ ([''/'', ''src'', ''ro'', ''x.txt''],
        [''/'', ''src'', ''backup_1'', ''ro'', ''x.txt''])
       # [([''/'', ''src'', ''y.txt''], [''/'', ''src'', ''backup_1'', ''y.txt''])]"
    by (simp add: ro_pairs_def)
  have 2: "delete_loop toy_hashlib {''backup_1'', ''final_backup.py''} True [] (ro_fs, [], [])
      = (ro_fs, [], [])"
    by simp
  have 3: "\<not> excluded_path {''backup_1'', ''final_backup.py''} [''/'', ''src'', ''ro'', ''x.txt'']"
    by (simp add: excluded_path_def parts_def)
  have 4: "verify_pair toy_hashlib ro_fs [''/'', ''src'', ''ro'', ''x.txt'']
      [''/'', ''src'', ''backup_1'', ''ro'', ''x.txt''] True"
    by code_simp
  have 5: "os_unlink ro_fs [''/'', ''src'', ''ro'', ''x.txt'']
      = Inl (PermissionError [''/'', ''src'', ''ro'', ''x.txt''])"
    by code_simp
  have 6: "snd (delete_loop toy_hashlib {''backup_1'', ''final_backup.py''} True
       [([''/'', ''src'', ''y.txt''], [''/'', ''src'', ''backup_1'', ''y.txt''])] (ro_fs, [], []))
      = ([[''/'', ''src'', ''y.txt'']], [])"
    by code_simp
  have 7: "str_of_error (PermissionError [''/'', ''src'', ''ro'', ''x.txt''])
      = ''[Errno 13] Permission denied: '' @ quoted ''/src/ro/x.txt''"
    by code_simp
  show ?thesis
    using delete_error_isolated [OF 1 2 3 4 5, of remdups False] by (simp only: 6 7) simp
qed

text \<open>
  C5, as amended. When the loop reaches a record that is not excluded and whose
  verification fails, for whatever cause, the record goes to \<open>failed\<close> with the one reason
  \<open>verification_failed\<close>, the file system is left as it was (the source is not touched),
  and the remaining records are processed from that file system.
\<close>

theorem verification_failure_recorded:
  assumes "copied_pairs = pre @ (src, dst) # suf"
    and "delete_loop hl ex uh pre (fs, [], []) = (fs1, del1, fl1)"
    and "\<not> excluded_path ex src"
    and "\<not> verify_pair hl fs1 src dst uh"
  shows "delete_loop hl ex uh (pre @ [(src, dst)]) (fs, [], [])
       = (fs1, del1, fl1 @ [(src, ''verification_failed'')]) \<and>
     snd (delete_backed_files hl set_iter fs copied_pairs ex uh red)
     = (del1 @ fst (snd (delete_loop hl ex uh suf (fs1, [], []))),
        fl1 @ [(src, ''verification_failed'')]
            @ snd (snd (delete_loop hl ex uh suf (fs1, [], []))))"
proof -
  have body: "delete_body hl ex uh (fs1, del1, fl1) (src, dst)
      = (fs1, del1 @ [], fl1 @ [(src, ''verification_failed'')])"
    using assms(3,4) by (simp add: delete_body_def)
  have "delete_loop hl ex uh (pre @ [(src, dst)]) (fs, [], [])
       = (fs1, del1, fl1 @ [(src, ''verification_failed'')])"
    using body by (simp add: delete_loop_snoc assms(2))
  then show ?thesis
    using delete_loop_split [OF assms(2) body, of suf] by (simp add: dbf_lists assms(1))
qed

theorem verification_failure_recorded_witness:
  "delete_loop toy_hashlib {''backup_1'', ''final_backup.py''} True
       ([] @ [([''/'', ''src'', ''b.txt''], [''/'', ''src'', ''backup_1'', ''b.txt''])])
       (demo_fs, [], [])
     = (demo_fs, [], [] @ [([''/'', ''src'', ''b.txt''], ''verification_failed'')]) \<and>
   snd (delete_backed_files toy_hashlib remdups demo_fs
          [([''/'', ''src'', ''b.txt''], [''/'', ''src'', ''backup_1'', ''b.txt''])]
          {''backup_1'', ''final_backup.py''} True False)
     = ([], [([''/'', ''src'', ''b.txt''], ''verification_failed'')])"
proof -
  have 1: "[([''/'', ''src'', ''b.txt''], [''/'', ''src'', ''backup_1'', ''b.txt''])]
      = [] @ ([''/'', ''src'', ''b.txt''], [''/'', ''src'', ''backup_1'', ''b.txt'']) # []"
    by simp
  have 2: "delete_loop toy_hashlib {''backup_1'', ''final_backup.py''} True [] (demo_fs, [], [])
      = (demo_fs, [], [])"
    by simp
  have 3: "\<not> excluded_path {''backup_1'', ''final_backup.py''} [''/'', ''src'', ''b.txt'']"
    by (simp add: excluded_path_def parts_def)
  have 4: "\<not> verify_pair toy_hashlib demo_fs [''/'', ''src'', ''b.txt'']
      [''/'', ''src'', ''backup_1'', ''b.txt''] True"
    by code_simp
  show ?thesis
    using verification_failure_recorded [OF 1 2 3 4, of remdups False] by simp
qed

text \<open>
  C5 as stated fails: \<open>verify_pair\<close> returns a truth value only, so a missing destination
  and a size mismatch are recorded with the same reason.
\<close>

theorem failure_reason_not_specific:
  "path_exists demo_fs [''/'', ''src'', ''backup_1'', ''gone.txt''] = Inr False \<and>
   snd (snd (delete_backed_files toy_hashlib remdups demo_fs
          [([''/'', ''src'', ''a.txt''], [''/'', ''src'', ''backup_1'', ''gone.txt''])]
          {''backup_1'', ''final_backup.py''} True False))
     = [([''/'', ''src'', ''a.txt''], ''verification_failed'')] \<and>
   map_sum id st_size (os_stat demo_fs [''/'', ''src'', ''b.txt'']) = Inr 3 \<and>
   map_sum id st_size (os_stat demo_fs [''/'', ''src'', ''backup_1'', ''b.txt'']) = Inr 4 \<and>
   snd (snd (delete_backed_files toy_hashlib remdups demo_fs
          [([''/'', ''src'', ''b.txt''], [''/'', ''src'', ''backup_1'', ''b.txt''])]
          {''backup_1'', ''final_backup.py''} True False))
     = [([''/'', ''src'', ''b.txt''], ''verification_failed'')]"
  by code_simp

section \<open>Verification of a copy\<close>

lemma path_exists_iff: "path_exists fs p = Inr True \<longleftrightarrow> map_of fs p \<noteq> None"
  by (auto simp: path_exists_def os_stat_def ignore_error_def split: option.splits node.splits)

lemma path_exists_total: "path_exists fs p = Inr (map_of fs p \<noteq> None)"
  by (auto simp: path_exists_def os_stat_def ignore_error_def split: option.splits node.splits)

lemma os_stat_exists: "map_of fs p \<noteq> None \<Longrightarrow> \<exists>s. os_stat fs p = Inr s"
  by (auto simp: os_stat_def split: option.splits node.splits)

lemma update_read_chunks:
  "streaming hl \<Longrightarrow> 0 < n \<Longrightarrow> foldl (h_update hl) h (read_chunks n bs) = h_update hl h bs"
proof (induction n bs arbitrary: h rule: read_chunks.induct)
  case (1 n bs)
  show ?case
  proof (cases "bs = []")
    case True
    then show ?thesis using 1(2) by (subst read_chunks.simps) (simp add: streaming_def)
  next
    case False
    have "foldl (h_update hl) h (read_chunks n bs)
          = foldl (h_update hl) (h_update hl h (take n bs)) (read_chunks n (drop n bs))"
      using False 1(3) by (subst read_chunks.simps) simp
    also have "\<dots> = h_update hl (h_update hl h (take n bs)) (drop n bs)"
      using 1(1) [of "h_update hl h (take n bs)"] False 1(2,3) by simp
    also have "\<dots> = h_update hl h (take n bs @ drop n bs)"
      using 1(2) by (simp add: streaming_def)
    finally show ?thesis by simp
  qed
qed

lemma open_rb_iff: "open_rb fs p = Inr bs \<longleftrightarrow> map_of fs p = Some (File bs True)"
  by (auto simp: open_rb_def split: option.splits node.splits)

lemma sha256_of_file_content:
  assumes "streaming hl" and "0 < n"
  shows "sha256_of_file hl fs p n =
           (case open_rb fs p of Inl e \<Rightarrow> Inl e | Inr bs \<Rightarrow> Inr (sha256 hl bs))"
  by (simp add: sha256_of_file_def sha256_def update_read_chunks [OF assms] split: sum.splits)

lemma verify_pair_try_missing:
  "map_of fs src = None \<or> map_of fs dst = None \<Longrightarrow>
   verify_pair_try hl fs src dst use_hash = Inr False"
  by (auto simp: verify_pair_try_def path_exists_total)

lemma verify_pair_try_present:
  assumes "map_of fs src = Some ns" and "map_of fs dst = Some nd"
    and "os_stat fs src = Inr s" and "os_stat fs dst = Inr d"
  shows "verify_pair_try hl fs src dst use_hash =
     (if st_size s \<noteq> st_size d then Inr False
      else if use_hash then
        (case sha256_of_file hl fs src 8192 of
           Inl e \<Rightarrow> Inl e
         | Inr h_src \<Rightarrow>
        (case sha256_of_file hl fs dst 8192 of
           Inl e \<Rightarrow> Inl e
         | Inr h_dst \<Rightarrow> Inr (h_src = h_dst)))
      else Inr True)"
  using assms by (simp add: verify_pair_try_def path_exists_total)

text \<open>
  C3. For a streaming hash, \<open>verify_pair\<close> returns true exactly when source and
  destination both exist, their sizes are equal and, if \<open>use_hash\<close> is set, both are
  readable regular files and the digests of their bytes are equal. For two regular files
  the sizes are the lengths of their bytes. An exception is raised inside exactly when
  \<open>use_hash\<close> is set, both exist with equal sizes and one of them cannot be opened for
  reading (the exception is that of the first \<open>open\<close> that fails); then, as with every
  exception raised inside, \<open>verify_pair\<close> returns false.
\<close>

theorem verify_pair_iff:
  assumes "streaming hl"
  shows
  "(verify_pair hl fs src dst use_hash \<longleftrightarrow>
      map_of fs src \<noteq> None \<and> map_of fs dst \<noteq> None \<and>
      (\<exists>s d. os_stat fs src = Inr s \<and> os_stat fs dst = Inr d \<and> st_size s = st_size d) \<and>
      (use_hash \<longrightarrow>
         (\<exists>bs bd. map_of fs src = Some (File bs True) \<and> map_of fs dst = Some (File bd True) \<and>
            sha256 hl bs = sha256 hl bd))) \<and>
   (\<forall>bs rs bd rd. map_of fs src = Some (File bs rs) \<and> map_of fs dst = Some (File bd rd) \<longrightarrow>
      (verify_pair hl fs src dst use_hash \<longleftrightarrow>
         length bs = length bd \<and> (use_hash \<longrightarrow> rs \<and> rd \<and> sha256 hl bs = sha256 hl bd))) \<and>
   (\<forall>e. verify_pair_try hl fs src dst use_hash = Inl e \<longleftrightarrow>
      use_hash \<and>
      (\<exists>s d. os_stat fs src = Inr s \<and> os_stat fs dst = Inr d \<and> st_size s = st_size d) \<and>
      (open_rb fs src = Inl e \<or> (\<exists>bs. open_rb fs src = Inr bs) \<and> open_rb fs dst = Inl e)) \<and>
   (\<forall>e. verify_pair_try hl fs src dst use_hash = Inl e \<longrightarrow> \<not> verify_pair hl fs src dst use_hash)"
proof -
  note sh = sha256_of_file_content [OF assms, of 8192, simplified]
  have A: "verify_pair hl fs src dst use_hash \<longleftrightarrow>
      map_of fs src \<noteq> None \<and> map_of fs dst \<noteq> None \<and>
      (\<exists>s d. os_stat fs src = Inr s \<and> os_stat fs dst = Inr d \<and> st_size s = st_size d) \<and>
      (use_hash \<longrightarrow>
         (\<exists>bs bd. map_of fs src = Some (File bs True) \<and> map_of fs dst = Some (File bd True) \<and>
            sha256 hl bs = sha256 hl bd))"
  proof (cases "map_of fs src = None \<or> map_of fs dst = None")
    case True
    then show ?thesis
      using verify_pair_try_missing [OF True, of hl use_hash] by (auto simp: verify_pair_def)
  next
    case False
    then obtain ns nd where n: "map_of fs src = Some ns" "map_of fs dst = Some nd" by auto
    obtain s d where sd: "os_stat fs src = Inr s" "os_stat fs dst = Inr d"
      using os_stat_exists [of fs src] os_stat_exists [of fs dst] n by auto
    show ?thesis
      unfolding verify_pair_def verify_pair_try_present [OF n sd] sh
      using n sd by (auto simp: open_rb_iff split: sum.splits) (simp_all add: open_rb_def)
  qed
  have B: "verify_pair hl fs src dst use_hash \<longleftrightarrow>
         length bs = length bd \<and> (use_hash \<longrightarrow> rs \<and> rd \<and> sha256 hl bs = sha256 hl bd)"
    if "map_of fs src = Some (File bs rs) \<and> map_of fs dst = Some (File bd rd)" for bs rs bd rd
    unfolding A using that by (auto simp: os_stat_def)
  have C: "verify_pair_try hl fs src dst use_hash = Inl e \<longleftrightarrow>
      use_hash \<and>
      (\<exists>s d. os_stat fs src = Inr s \<and> os_stat fs dst = Inr d \<and> st_size s = st_size d) \<and>
      (open_rb fs src = Inl e \<or> (\<exists>bs. open_rb fs src = Inr bs) \<and> open_rb fs dst = Inl e)" for e
  proof (cases "map_of fs src = None \<or> map_of fs dst = None")
    case True
    then show ?thesis
      using verify_pair_try_missing [OF True, of hl use_hash]
      by (auto simp: os_stat_def split: option.splits)
  next
    case False
    then obtain ns nd where n: "map_of fs src = Some ns" "map_of fs dst = Some nd" by auto
    obtain s d where sd: "os_stat fs src = Inr s" "os_stat fs dst = Inr d"
      using os_stat_exists [of fs src] os_stat_exists [of fs dst] n by auto
    show ?thesis
      unfolding verify_pair_try_present [OF n sd] sh
      using sd by (auto split: sum.splits)
  qed
  have D: "\<not> verify_pair hl fs src dst use_hash"
    if "verify_pair_try hl fs src dst use_hash = Inl e" for e
    using that by (simp add: verify_pair_def)
  from A B C D show ?thesis by blast
qed

lemma concat_read_chunks: "0 < n \<Longrightarrow> concat (read_chunks n bs) = bs"
proof (induction n bs rule: read_chunks.induct)
  case (1 n bs)
  then show ?case by (subst read_chunks.simps) simp
qed

theorem verify_pair_iff_witness:
  "streaming toy_hashlib \<and>
   verify_pair toy_hashlib demo_fs [''/'', ''src'', ''a.txt'']
      [''/'', ''src'', ''backup_1'', ''a.txt''] True \<and>
   \<not> verify_pair toy_hashlib demo_fs [''/'', ''src'', ''a.txt'']
      [''/'', ''src'', ''backup_1'', ''gone.txt''] False \<and>
   verify_pair toy_hashlib damaged_fs [''/'', ''src'', ''a.txt'']
      [''/'', ''src'', ''backup_1'', ''a.txt''] False \<and>
   \<not> verify_pair toy_hashlib damaged_fs [''/'', ''src'', ''a.txt'']
      [''/'', ''src'', ''backup_1'', ''a.txt''] True \<and>
   verify_pair_try toy_hashlib damaged_fs [''/'', ''src'', ''s.txt'']
      [''/'', ''src'', ''backup_1'', ''s.txt''] True
     = Inl (PermissionError [''/'', ''src'', ''s.txt'']) \<and>
   \<not> verify_pair toy_hashlib damaged_fs [''/'', ''src'', ''s.txt'']
      [''/'', ''src'', ''backup_1'', ''s.txt''] True"
proof -
  have st: "streaming toy_hashlib"
    by (simp add: streaming_def toy_hashlib_def)
  have h: "sha256 toy_hashlib bs = bs" for bs
    by (simp add: sha256_def toy_hashlib_def)
  have m: "map_of demo_fs [''/'', ''src'', ''a.txt''] = Some (File ''hello'' True)"
    "map_of demo_fs [''/'', ''src'', ''backup_1'', ''a.txt''] = Some (File ''hello'' True)"
    "map_of demo_fs [''/'', ''src'', ''backup_1'', ''gone.txt''] = None"
    "map_of damaged_fs [''/'', ''src'', ''a.txt''] = Some (File ''hello'' True)"
    "map_of damaged_fs [''/'', ''src'', ''backup_1'', ''a.txt''] = Some (File ''hellO'' True)"
    by code_simp+
  have "verify_pair toy_hashlib demo_fs [''/'', ''src'', ''a.txt'']
      [''/'', ''src'', ''backup_1'', ''a.txt''] True \<longleftrightarrow>
      length ''hello'' = length ''hello'' \<and>
      (True \<longrightarrow> True \<and> True \<and> sha256 toy_hashlib ''hello'' = sha256 toy_hashlib ''hello'')"
    using verify_pair_iff [OF st, of demo_fs "[''/'', ''src'', ''a.txt'']"
        "[''/'', ''src'', ''backup_1'', ''a.txt'']" True] m(1,2)
    by blast
  then have 1: "verify_pair toy_hashlib demo_fs [''/'', ''src'', ''a.txt'']
      [''/'', ''src'', ''backup_1'', ''a.txt''] True"
    by simp
  have 2: "\<not> verify_pair toy_hashlib demo_fs [''/'', ''src'', ''a.txt'']
      [''/'', ''src'', ''backup_1'', ''gone.txt''] False"
    using verify_pair_iff [OF st, of demo_fs "[''/'', ''src'', ''a.txt'']"
        "[''/'', ''src'', ''backup_1'', ''gone.txt'']" False] m(3)
    by blast
  have "verify_pair toy_hashlib damaged_fs [''/'', ''src'', ''a.txt'']
      [''/'', ''src'', ''backup_1'', ''a.txt''] False \<longleftrightarrow>
      length ''hello'' = length ''hellO'' \<and>
      (False \<longrightarrow> True \<and> True \<and> sha256 toy_hashlib ''hello'' = sha256 toy_hashlib ''hellO'')"
    using verify_pair_iff [OF st, of damaged_fs "[''/'', ''src'', ''a.txt'']"
        "[''/'', ''src'', ''backup_1'', ''a.txt'']" False] m(4,5)
    by blast
  then have 3: "verify_pair toy_hashlib damaged_fs [''/'', ''src'', ''a.txt'']
      [''/'', ''src'', ''backup_1'', ''a.txt''] False"
    by simp
  have "verify_pair toy_hashlib damaged_fs [''/'', ''src'', ''a.txt'']
      [''/'', ''src'', ''backup_1'', ''a.txt''] True \<longleftrightarrow>
      length ''hello'' = length ''hellO'' \<and>
      (True \<longrightarrow> True \<and> True \<and> sha256 toy_hashlib ''hello'' = sha256 toy_hashlib ''hellO'')"
    using verify_pair_iff [OF st, of damaged_fs "[''/'', ''src'', ''a.txt'']"
        "[''/'', ''src'', ''backup_1'', ''a.txt'']" True] m(4,5)
    by blast
  then have 4: "\<not> verify_pair toy_hashlib damaged_fs [''/'', ''src'', ''a.txt'']
      [''/'', ''src'', ''backup_1'', ''a.txt''] True"
    by (simp add: h)
  have 5: "verify_pair_try toy_hashlib damaged_fs [''/'', ''src'', ''s.txt'']
      [''/'', ''src'', ''backup_1'', ''s.txt''] True
     = Inl (PermissionError [''/'', ''src'', ''s.txt''])"
    by code_simp
  have 6: "\<not> verify_pair toy_hashlib damaged_fs [''/'', ''src'', ''s.txt'']
      [''/'', ''src'', ''backup_1'', ''s.txt''] True"
    using verify_pair_iff [OF st, of damaged_fs "[''/'', ''src'', ''s.txt'']"
        "[''/'', ''src'', ''backup_1'', ''s.txt'']" True] 5
    by blast
  from st 1 2 3 4 5 6 show ?thesis by blast
qed

section \<open>Pruning empty directories\<close>

lemma set_iteration_remdups: "set_iteration remdups"
  by (simp add: set_iteration_def)

lemma prune_candidates_props:
  assumes "set_iteration set_iter"
  shows "distinct (prune_candidates set_iter deleted)"
    and "set (prune_candidates set_iter deleted) = parent ` set deleted"
    and "sorted_wrt (\<lambda>a b. length (parts b) \<le> length (parts a)) (prune_candidates set_iter deleted)"
proof -
  from assms have d: "distinct (set_iter (map parent deleted))"
    and s: "set (set_iter (map parent deleted)) = parent ` set deleted"
    by (simp_all add: set_iteration_def)
  show "distinct (prune_candidates set_iter deleted)"
    using d by (simp add: prune_candidates_def)
  show "set (prune_candidates set_iter deleted) = parent ` set deleted"
    using s by (simp add: prune_candidates_def)
  have "sorted (map (\<lambda>p. - int (length (parts p))) (prune_candidates set_iter deleted))"
    unfolding prune_candidates_def by (rule sorted_sort_key)
  then show "sorted_wrt (\<lambda>a b. length (parts b) \<le> length (parts a))
      (prune_candidates set_iter deleted)"
    by (simp add: sorted_map)
qed

lemma prune_step_char:
  "prune_step fs d =
     (if (\<exists>w. map_of fs d = Some (Dir w)) \<and> entries fs d = [] \<and> dir_writable fs (parent d)
      then AList.delete d fs else fs)"
  by (auto simp: prune_step_def prune_try_def path_exists_def is_dir_def iterdir_def
        os_scandir_def os_stat_def os_rmdir_def ignore_error_def
      split: option.splits node.splits sum.splits)

lemma prune_step_api:
  "prune_step fs d =
     (if path_exists fs d = Inr True \<and> is_dir fs d = Inr True \<and> iterdir fs d = Inr []
      then (case os_rmdir fs d of Inr fs' \<Rightarrow> fs' | Inl e \<Rightarrow> fs) else fs)"
  by (auto simp: prune_step_def prune_try_def path_exists_def is_dir_def iterdir_def
        os_scandir_def os_stat_def os_rmdir_def ignore_error_def
      split: option.splits node.splits sum.splits)

text \<open>
  C7. With \<open>remove_empty_dirs\<close> set, the directories considered after the loop are the
  parents of the deleted files, each once, deepest first (by number of parts, descending).
  Each is removed only if at that moment it exists, is a directory and has no entry; an
  error of the removal leaves the file system as it was. The lists \<open>deleted\<close> and \<open>failed\<close>
  are those of the loop, with pruning or without.
\<close>

theorem prune_empty_dirs:
  assumes "set_iteration set_iter"
    and "delete_loop hl ex uh copied_pairs (fs, [], []) = (fs1, deleted, failed)"
  shows "delete_backed_files hl set_iter fs copied_pairs ex uh True
           = (foldl prune_step fs1 (prune_candidates set_iter deleted), deleted, failed) \<and>
         delete_backed_files hl set_iter fs copied_pairs ex uh False = (fs1, deleted, failed) \<and>
         distinct (prune_candidates set_iter deleted) \<and>
         set (prune_candidates set_iter deleted) = parent ` set deleted \<and>
         sorted_wrt (\<lambda>a b. length (parts b) \<le> length (parts a))
           (prune_candidates set_iter deleted) \<and>
         (\<forall>fs d. prune_step fs d =
            (if path_exists fs d = Inr True \<and> is_dir fs d = Inr True \<and> iterdir fs d = Inr []
             then (case os_rmdir fs d of Inr fs' \<Rightarrow> fs' | Inl e \<Rightarrow> fs) else fs)) \<and>
         (\<forall>fs d. prune_step fs d =
            (if (\<exists>w. map_of fs d = Some (Dir w)) \<and> entries fs d = [] \<and>
                dir_writable fs (parent d)
             then AList.delete d fs else fs))"
proof -
  have "delete_backed_files hl set_iter fs copied_pairs ex uh True
           = (foldl prune_step fs1 (prune_candidates set_iter deleted), deleted, failed)"
    by (simp add: delete_backed_files_def assms(2) prune_loop_def)
  moreover have "delete_backed_files hl set_iter fs copied_pairs ex uh False = (fs1, deleted, failed)"
    by (simp add: delete_backed_files_def assms(2))
  ultimately show ?thesis
    using prune_candidates_props [OF assms(1), of deleted] prune_step_api prune_step_char
    by blast
qed

theorem prune_empty_dirs_witness:
  "prune_candidates remdups [[''/'', ''src'', ''d1'', ''g.txt''], [''/'', ''src'', ''d1'', ''d2'', ''f.txt'']]
     = [[''/'', ''src'', ''d1'', ''d2''], [''/'', ''src'', ''d1'']] \<and>
   delete_backed_files toy_hashlib remdups deep_fs deep_pairs {''backup_1'', ''final_backup.py''} True True
     = ([([''/''], Dir True),
         ([''/'', ''src''], Dir True),
         ([''/'', ''src'', ''backup_1''], Dir True),
         ([''/'', ''src'', ''backup_1'', ''d1''], Dir True),
         ([''/'', ''src'', ''backup_1'', ''d1'', ''g.txt''], File ''gg'' True),
         ([''/'', ''src'', ''backup_1'', ''d1'', ''d2''], Dir True),
         ([''/'', ''src'', ''backup_1'', ''d1'', ''d2'', ''f.txt''], File ''f'' True)],
        [[''/'', ''src'', ''d1'', ''g.txt''], [''/'', ''src'', ''d1'', ''d2'', ''f.txt'']], [])"
proof -
  have c: "prune_candidates remdups
       [[''/'', ''src'', ''d1'', ''g.txt''], [''/'', ''src'', ''d1'', ''d2'', ''f.txt'']]
     = [[''/'', ''src'', ''d1'', ''d2''], [''/'', ''src'', ''d1'']]"
    by code_simp
  have l: "delete_loop toy_hashlib {''backup_1'', ''final_backup.py''} True deep_pairs (deep_fs, [], [])
     = ([([''/''], Dir True),
         ([''/'', ''src''], Dir True),
         ([''/'', ''src'', ''d1''], Dir True),
         ([''/'', ''src'', ''d1'', ''d2''], Dir True),
         ([''/'', ''src'', ''backup_1''], Dir True),
         ([''/'', ''src'', ''backup_1'', ''d1''], Dir True),
         ([''/'', ''src'', ''backup_1'', ''d1'', ''g.txt''], File ''gg'' True),
         ([''/'', ''src'', ''backup_1'', ''d1'', ''d2''], Dir True),
         ([''/'', ''src'', ''backup_1'', ''d1'', ''d2'', ''f.txt''], File ''f'' True)],
        [[''/'', ''src'', ''d1'', ''g.txt''], [''/'', ''src'', ''d1'', ''d2'', ''f.txt'']], [])"
    by code_simp
  have p: "foldl prune_step
        [([''/''], Dir True),
         ([''/'', ''src''], Dir True),
         ([''/'', ''src'', ''d1''], Dir True),
         ([''/'', ''src'', ''d1'', ''d2''], Dir True),
         ([''/'', ''src'', ''backup_1''], Dir True),
         ([''/'', ''src'', ''backup_1'', ''d1''], Dir True),
         ([''/'', ''src'', ''backup_1'', ''d1'', ''g.txt''], File ''gg'' True),
         ([''/'', ''src'', ''backup_1'', ''d1'', ''d2''], Dir True),
         ([''/'', ''src'', ''backup_1'', ''d1'', ''d2'', ''f.txt''], File ''f'' True)]
        [[''/'', ''src'', ''d1'', ''d2''], [''/'', ''src'', ''d1'']]
     = [([''/''], Dir True),
         ([''/'', ''src''], Dir True),
         ([''/'', ''src'', ''backup_1''], Dir True),
         ([''/'', ''src'', ''backup_1'', ''d1''], Dir True),
         ([''/'', ''src'', ''backup_1'', ''d1'', ''g.txt''], File ''gg'' True),
         ([''/'', ''src'', ''backup_1'', ''d1'', ''d2''], Dir True),
         ([''/'', ''src'', ''backup_1'', ''d1'', ''d2'', ''f.txt''], File ''f'' True)]"
    by code_simp
  show ?thesis
    using prune_empty_dirs [OF set_iteration_remdups l, THEN conjunct1] c p by simp
qed

section \<open>Properties of the allocation\<close>

lemma length_str_nat: "0 < k \<Longrightarrow> n < 10 ^ k \<Longrightarrow> length (str_nat n) \<le> k"
proof (induction k arbitrary: n)
  case 0
  then show ?case by simp
next
  case (Suc k)
  show ?case
  proof (cases "n < 10")
    case True
    then show ?thesis by (subst str_nat.simps) simp
  next
    case False
    then have k: "0 < k" using Suc.prems by (cases k) auto
    have "n div 10 < 10 ^ k" using Suc.prems by (simp add: less_mult_imp_div_less mult.commute)
    then have "length (str_nat (n div 10)) \<le> k" using Suc.IH k by simp
    then show ?thesis using False by (subst str_nat.simps) simp
  qed
qed

lemma zfill_field:
  assumes "n < 10 ^ k" "0 < k"
  shows "length (zfill k (str_nat n)) = k" "set (zfill k (str_nat n)) \<subseteq> set ''0123456789''"
proof -
  have l: "length (str_nat n) \<le> k" using assms by (simp add: length_str_nat)
  then show "length (zfill k (str_nat n)) = k" by (simp add: zfill_def)
  have "set (replicate (k - length (str_nat n)) CHR ''0'') \<subseteq> set ''0123456789''"
    by auto
  then show "set (zfill k (str_nat n)) \<subseteq> set ''0123456789''"
    using str_nat_digits [of n] unfolding zfill_def by (simp only: set_append Un_subset_iff)
qed

lemma nat_of_digits_zeros: "nat_of_digits (replicate m CHR ''0'' @ s) = nat_of_digits s"
proof -
  have "foldl (\<lambda>a c. 10 * a + (of_char c - 48)) (0::nat) (replicate m CHR ''0'') = 0"
    by (induction m) simp_all
  then show ?thesis by (simp add: nat_of_digits_def)
qed

lemma zfill_value: "nat_of_digits (zfill k (str_nat n)) = n"
  by (simp add: zfill_def nat_of_digits_zeros nat_of_digits_str_nat)

lemma strftime_no_sep: "CHR ''/'' \<notin> set (strftime_Ymd_HMS t)"
proof -
  have z: "CHR ''/'' \<notin> set (zfill k (str_nat n))" for k n
    using str_nat_no_sep [of n] by (auto simp: zfill_def)
  show ?thesis by (simp add: strftime_Ymd_HMS_def z)
qed

lemma digit_char_zero: "k < 10 \<Longrightarrow> digit_char k = CHR ''0'' \<longleftrightarrow> k = 0"
proof -
  assume k: "k < 10"
  have "nat_of_digits [digit_char k] = k"
    using nat_of_digits_str_nat [of k] k by (subst (asm) str_nat.simps) simp
  moreover have "nat_of_digits [CHR ''0''] = 0" by (simp add: nat_of_digits_def)
  moreover have "digit_char 0 = CHR ''0''" by code_simp
  ultimately show ?thesis by metis
qed

lemma str_nat_nonempty: "str_nat n \<noteq> []"
  by (subst str_nat.simps) simp

lemma str_nat_no_leading_zero: "0 < n \<Longrightarrow> hd (str_nat n) \<noteq> CHR ''0''"
proof (induction n rule: str_nat.induct)
  case (1 n)
  show ?case
  proof (cases "n < 10")
    case True
    then show ?thesis using 1(2) digit_char_zero [of n] by (subst str_nat.simps) simp
  next
    case False
    then have "0 < n div 10" by simp
    then have "hd (str_nat (n div 10)) \<noteq> CHR ''0''" using 1(1) False by simp
    then show ?thesis
      using False str_nat_nonempty [of "n div 10"] by (subst str_nat.simps) simp
  qed
qed

lemma strftime_format:
  assumes "valid_datetime t"
  shows "length (strftime_Ymd_HMS t) = 15 \<and> strftime_Ymd_HMS t ! 8 = CHR ''_'' \<and>
         set (take 8 (strftime_Ymd_HMS t)) \<subseteq> set ''0123456789'' \<and>
         set (drop 9 (strftime_Ymd_HMS t)) \<subseteq> set ''0123456789'' \<and>
         nat_of_digits (take 4 (strftime_Ymd_HMS t)) = year t \<and>
         nat_of_digits (take 2 (drop 4 (strftime_Ymd_HMS t))) = month t \<and>
         nat_of_digits (take 2 (drop 6 (strftime_Ymd_HMS t))) = day t \<and>
         nat_of_digits (take 2 (drop 9 (strftime_Ymd_HMS t))) = hour t \<and>
         nat_of_digits (take 2 (drop 11 (strftime_Ymd_HMS t))) = minute t \<and>
         nat_of_digits (take 2 (drop 13 (strftime_Ymd_HMS t))) = second t"
proof -
  from assms have y: "year t < 10 ^ 4" and m: "month t < 10 ^ 2" and d: "day t < 10 ^ 2"
    and h: "hour t < 10 ^ 2" and mi: "minute t < 10 ^ 2" and s: "second t < 10 ^ 2"
    by (simp_all add: valid_datetime_def)
  define Y where "Y = zfill 4 (str_nat (year t))"
  define M where "M = zfill 2 (str_nat (month t))"
  define D where "D = zfill 2 (str_nat (day t))"
  define H where "H = zfill 2 (str_nat (hour t))"
  define Mi where "Mi = zfill 2 (str_nat (minute t))"
  define S where "S = zfill 2 (str_nat (second t))"
  have len: "length Y = 4" "length M = 2" "length D = 2" "length H = 2" "length Mi = 2"
    "length S = 2"
    unfolding Y_def M_def D_def H_def Mi_def S_def
    using zfill_field(1) [OF y] zfill_field(1) [OF m] zfill_field(1) [OF d]
      zfill_field(1) [OF h] zfill_field(1) [OF mi] zfill_field(1) [OF s] by simp_all
  have dig: "set Y \<subseteq> set ''0123456789''" "set M \<subseteq> set ''0123456789''"
    "set D \<subseteq> set ''0123456789''" "set H \<subseteq> set ''0123456789''"
    "set Mi \<subseteq> set ''0123456789''" "set S \<subseteq> set ''0123456789''"
    unfolding Y_def M_def D_def H_def Mi_def S_def
    using zfill_field(2) [OF y] zfill_field(2) [OF m] zfill_field(2) [OF d]
      zfill_field(2) [OF h] zfill_field(2) [OF mi] zfill_field(2) [OF s] by simp_all
  have val: "nat_of_digits Y = year t" "nat_of_digits M = month t" "nat_of_digits D = day t"
    "nat_of_digits H = hour t" "nat_of_digits Mi = minute t" "nat_of_digits S = second t"
    unfolding Y_def M_def D_def H_def Mi_def S_def by (simp_all add: zfill_value)
  have st: "strftime_Ymd_HMS t = Y @ M @ D @ ''_'' @ H @ Mi @ S"
    by (simp add: strftime_Ymd_HMS_def Y_def M_def D_def H_def Mi_def S_def)
  have c1: "length (strftime_Ymd_HMS t) = 15" by (simp add: st len)
  have c2: "strftime_Ymd_HMS t ! 8 = CHR ''_''" by (simp add: st len nth_append)
  have "take 8 (strftime_Ymd_HMS t) = Y @ M @ D" by (simp add: st len)
  then have c3: "set (take 8 (strftime_Ymd_HMS t)) \<subseteq> set ''0123456789''"
    using dig(1-3) by (simp only: set_append Un_subset_iff)
  have "drop 9 (strftime_Ymd_HMS t) = H @ Mi @ S" by (simp add: st len)
  then have c4: "set (drop 9 (strftime_Ymd_HMS t)) \<subseteq> set ''0123456789''"
    using dig(4-6) by (simp only: set_append Un_subset_iff)
  have "take 4 (strftime_Ymd_HMS t) = Y" by (simp add: st len)
  then have c5: "nat_of_digits (take 4 (strftime_Ymd_HMS t)) = year t" by (simp only: val)
  have "take 2 (drop 4 (strftime_Ymd_HMS t)) = M" by (simp add: st len)
  then have c6: "nat_of_digits (take 2 (drop 4 (strftime_Ymd_HMS t))) = month t"
    by (simp only: val)
  have "take 2 (drop 6 (strftime_Ymd_HMS t)) = D" by (simp add: st len)
  then have c7: "nat_of_digits (take 2 (drop 6 (strftime_Ymd_HMS t))) = day t"
    by (simp only: val)
  have "take 2 (drop 9 (strftime_Ymd_HMS t)) = H" by (simp add: st len)
  then have c8: "nat_of_digits (take 2 (drop 9 (strftime_Ymd_HMS t))) = hour t"
    by (simp only: val)
  have "take 2 (drop 11 (strftime_Ymd_HMS t)) = Mi" by (simp add: st len)
  then have c9: "nat_of_digits (take 2 (drop 11 (strftime_Ymd_HMS t))) = minute t"
    by (simp only: val)
  have "take 2 (drop 13 (strftime_Ymd_HMS t)) = S" by (simp add: st len)
  then have c10: "nat_of_digits (take 2 (drop 13 (strftime_Ymd_HMS t))) = second t"
    by (simp only: val)
  from c1 c2 c3 c4 c5 c6 c7 c8 c9 c10 show ?thesis by blast
qed

lemma path_mkdir_fresh:
  "path_mkdir fs p parents False = Inr fs' \<Longrightarrow> map_of fs p = None \<and> map_of fs' p \<noteq> None"
  using path_mkdir_post [of fs p False parents] by (auto simp: mkdir_post_def)

lemma mkdir_or_raise_no_probe:
  assumes "map_of fs p = None"
  shows "(case path_mkdir fs p True False of
            Inr fs' \<Rightarrow> Inr (fs', p)
          | Inl e \<Rightarrow> if is_FileExistsError e then other else Inl e)
       = (case path_mkdir fs p True False of Inl e \<Rightarrow> Inl e | Inr fs' \<Rightarrow> Inr (fs', p))"
  using assms path_mkdir_EEXIST [of fs p True False] by (auto split: sum.splits)

lemma probe_least:
  "\<exists>k\<ge>i. (\<forall>j. i \<le> j \<and> j < k \<longrightarrow> map_of fs (probe_name base_dir name j) \<noteq> None) \<and>
     map_of fs (probe_name base_dir name k) = None \<and>
     probe_backup_dir fs base_dir name i =
       (case path_mkdir fs (probe_name base_dir name k) True False of
          Inl e \<Rightarrow> Inl e
        | Inr fs' \<Rightarrow> Inr (fs', probe_name base_dir name k))"
proof (induction fs base_dir name i rule: probe_backup_dir.induct)
  case (1 fs base_dir name i)
  show ?case
  proof (cases "map_of fs (probe_name base_dir name i) = None")
    case True
    have "probe_backup_dir fs base_dir name i =
       (case path_mkdir fs (probe_name base_dir name i) True False of
          Inl e \<Rightarrow> Inl e
        | Inr fs' \<Rightarrow> Inr (fs', probe_name base_dir name i))"
      by (subst probe_backup_dir.simps) (simp add: Let_def mkdir_or_raise_no_probe [OF True])
    then show ?thesis using True by (intro exI [of _ i]) auto
  next
    case False
    then have e: "path_mkdir fs (probe_name base_dir name i) True False
        = Inl (FileExistsError (probe_name base_dir name i))"
      by (rule path_mkdir_exists)
    have x: "is_FileExistsError (FileExistsError (probe_name base_dir name i))"
      by (simp add: is_FileExistsError_def)
    from "1.IH" [OF refl e x] obtain k where k: "i + 1 \<le> k"
      "\<forall>j. i + 1 \<le> j \<and> j < k \<longrightarrow> map_of fs (probe_name base_dir name j) \<noteq> None"
      "map_of fs (probe_name base_dir name k) = None"
      "probe_backup_dir fs base_dir name (i + 1) =
         (case path_mkdir fs (probe_name base_dir name k) True False of
            Inl e \<Rightarrow> Inl e
          | Inr fs' \<Rightarrow> Inr (fs', probe_name base_dir name k))"
      by blast
    have r: "probe_backup_dir fs base_dir name i = probe_backup_dir fs base_dir name (i + 1)"
      by (subst probe_backup_dir.simps) (simp add: Let_def e x)
    have "\<forall>j. i \<le> j \<and> j < k \<longrightarrow> map_of fs (probe_name base_dir name j) \<noteq> None"
    proof (intro allI impI)
      fix j assume "i \<le> j \<and> j < k"
      then have "j = i \<or> (i + 1 \<le> j \<and> j < k)" by auto
      then show "map_of fs (probe_name base_dir name j) \<noteq> None" using False k(2) by blast
    qed
    then show ?thesis using k(1,3,4) r by (intro exI [of _ k]) simp
  qed
qed

lemma probe_fresh:
  "probe_backup_dir fs base_dir name i = Inr (fs', d) \<Longrightarrow> map_of fs d = None \<and> map_of fs' d \<noteq> None"
proof -
  assume a: "probe_backup_dir fs base_dir name i = Inr (fs', d)"
  from probe_least [of i fs base_dir name] obtain k where
    "probe_backup_dir fs base_dir name i =
       (case path_mkdir fs (probe_name base_dir name k) True False of
          Inl e \<Rightarrow> Inl e
        | Inr fs' \<Rightarrow> Inr (fs', probe_name base_dir name k))"
    by blast
  with a have "path_mkdir fs d True False = Inr fs'"
    by (auto split: sum.splits)
  then show ?thesis by (rule path_mkdir_fresh)
qed

lemma allocate_fresh:
  assumes "allocate_backup_dir fs base_dir name now = Inr (fs', d)"
  shows "map_of fs d = None \<and> map_of fs' d \<noteq> None"
proof (cases "create_unique_backup_dir fs base_dir name now")
  case (Inr r)
  then have "path_mkdir fs d True False = Inr fs'"
    using assms by (auto simp: allocate_backup_dir_def create_unique_backup_dir_def Let_def
        split: sum.splits)
  then show ?thesis by (rule path_mkdir_fresh)
next
  case (Inl e)
  then have "probe_backup_dir fs base_dir name 1 = Inr (fs', d)"
    using assms by (auto simp: allocate_backup_dir_def split: if_splits)
  then show ?thesis by (rule probe_fresh)
qed

text \<open>
  C6, as amended. The first candidate is \<open>base_dir / base_name_YYYYMMDD_HHMMSS\<close>: fifteen
  characters, the ninth an underscore, the others digits, which read as numbers are the
  year (four digits), the month, the day, the hour, the minute and the second (two digits
  each), in this order. The probed names are \<open>base_dir / base_name_k\<close> with \<open>k\<close> in
  decimal digits without a leading zero; for a base name without a separator both are one
  more part below \<open>base_dir\<close>. If no entry has the first name, allocation makes that
  directory or fails with the error of the creation, and probes nothing. If an entry has
  that name, a directory or a regular file, allocation probes \<open>k = 1, 2, ...\<close> and stops
  at the first \<open>k\<close> whose name is unused: it returns that directory when its creation
  succeeds (any other error is fatal). The loop always ends. Two allocations in a row,
  whatever the clock shows, never return the same directory.
\<close>

theorem allocation_unique:
  "(valid_datetime now \<longrightarrow>
      length (strftime_Ymd_HMS now) = 15 \<and> strftime_Ymd_HMS now ! 8 = CHR ''_'' \<and>
      set (take 8 (strftime_Ymd_HMS now)) \<subseteq> set ''0123456789'' \<and>
      set (drop 9 (strftime_Ymd_HMS now)) \<subseteq> set ''0123456789'' \<and>
      nat_of_digits (take 4 (strftime_Ymd_HMS now)) = year now \<and>
      nat_of_digits (take 2 (drop 4 (strftime_Ymd_HMS now))) = month now \<and>
      nat_of_digits (take 2 (drop 6 (strftime_Ymd_HMS now))) = day now \<and>
      nat_of_digits (take 2 (drop 9 (strftime_Ymd_HMS now))) = hour now \<and>
      nat_of_digits (take 2 (drop 11 (strftime_Ymd_HMS now))) = minute now \<and>
      nat_of_digits (take 2 (drop 13 (strftime_Ymd_HMS now))) = second now) \<and>
   (\<forall>k. set (str_nat k) \<subseteq> set ''0123456789'' \<and> nat_of_digits (str_nat k) = k \<and>
        str_nat k \<noteq> [] \<and> (0 < k \<longrightarrow> hd (str_nat k) \<noteq> CHR ''0'')) \<and>
   (CHR ''/'' \<notin> set name \<longrightarrow>
      truediv base_dir (name @ ''_'' @ strftime_Ymd_HMS now)
        = child base_dir (name @ ''_'' @ strftime_Ymd_HMS now) \<and>
      (\<forall>k. truediv base_dir (name @ ''_'' @ str_nat k) = child base_dir (name @ ''_'' @ str_nat k))) \<and>
   (map_of fs (truediv base_dir (name @ ''_'' @ strftime_Ymd_HMS now)) = None \<longrightarrow>
      allocate_backup_dir fs base_dir name now =
        (case path_mkdir fs (truediv base_dir (name @ ''_'' @ strftime_Ymd_HMS now)) True False of
           Inl e \<Rightarrow> Inl e
         | Inr fs' \<Rightarrow> Inr (fs', truediv base_dir (name @ ''_'' @ strftime_Ymd_HMS now)))) \<and>
   (map_of fs (truediv base_dir (name @ ''_'' @ strftime_Ymd_HMS now)) \<noteq> None \<longrightarrow>
      (\<exists>k\<ge>1. (\<forall>j. 1 \<le> j \<and> j < k \<longrightarrow>
                  map_of fs (truediv base_dir (name @ ''_'' @ str_nat j)) \<noteq> None) \<and>
         map_of fs (truediv base_dir (name @ ''_'' @ str_nat k)) = None \<and>
         allocate_backup_dir fs base_dir name now =
           (case path_mkdir fs (truediv base_dir (name @ ''_'' @ str_nat k)) True False of
              Inl e \<Rightarrow> Inl e
            | Inr fs' \<Rightarrow> Inr (fs', truediv base_dir (name @ ''_'' @ str_nat k))))) \<and>
   (\<forall>fs1 d1 now' fs2 d2.
      allocate_backup_dir fs base_dir name now = Inr (fs1, d1) \<longrightarrow>
      allocate_backup_dir fs1 base_dir name now' = Inr (fs2, d2) \<longrightarrow> d1 \<noteq> d2)"
proof (intro conjI impI allI)
  assume v: "valid_datetime now"
  note f = strftime_format [OF v]
  show "length (strftime_Ymd_HMS now) = 15" using f by blast
  show "strftime_Ymd_HMS now ! 8 = CHR ''_''" using f by blast
  show "set (take 8 (strftime_Ymd_HMS now)) \<subseteq> set ''0123456789''" using f by blast
  show "set (drop 9 (strftime_Ymd_HMS now)) \<subseteq> set ''0123456789''" using f by blast
  show "nat_of_digits (take 4 (strftime_Ymd_HMS now)) = year now" using f by blast
  show "nat_of_digits (take 2 (drop 4 (strftime_Ymd_HMS now))) = month now" using f by blast
  show "nat_of_digits (take 2 (drop 6 (strftime_Ymd_HMS now))) = day now" using f by blast
  show "nat_of_digits (take 2 (drop 9 (strftime_Ymd_HMS now))) = hour now" using f by blast
  show "nat_of_digits (take 2 (drop 11 (strftime_Ymd_HMS now))) = minute now" using f by blast
  show "nat_of_digits (take 2 (drop 13 (strftime_Ymd_HMS now))) = second now" using f by blast
next
  fix k
  show "set (str_nat k) \<subseteq> set ''0123456789''" by (rule str_nat_digits)
  show "nat_of_digits (str_nat k) = k" by (rule nat_of_digits_str_nat)
  show "str_nat k \<noteq> []" by (rule str_nat_nonempty)
  show "hd (str_nat k) \<noteq> CHR ''0''" if "0 < k" using that by (rule str_nat_no_leading_zero)
next
  assume b: "CHR ''/'' \<notin> set name"
  show "truediv base_dir (name @ ''_'' @ strftime_Ymd_HMS now)
        = child base_dir (name @ ''_'' @ strftime_Ymd_HMS now)"
    using truediv_bare [OF b strftime_no_sep] by simp
  show "truediv base_dir (name @ ''_'' @ str_nat k) = child base_dir (name @ ''_'' @ str_nat k)"
    for k
    using truediv_bare [OF b str_nat_no_sep] by simp
next
  assume n: "map_of fs (truediv base_dir (name @ ''_'' @ strftime_Ymd_HMS now)) = None"
  show "allocate_backup_dir fs base_dir name now =
        (case path_mkdir fs (truediv base_dir (name @ ''_'' @ strftime_Ymd_HMS now)) True False of
           Inl e \<Rightarrow> Inl e
         | Inr fs' \<Rightarrow> Inr (fs', truediv base_dir (name @ ''_'' @ strftime_Ymd_HMS now)))"
    using path_mkdir_EEXIST [of fs "truediv base_dir (name @ ''_'' @ strftime_Ymd_HMS now)" True False] n
    by (auto simp: allocate_backup_dir_def create_unique_backup_dir_def Let_def split: sum.splits)
next
  assume x: "map_of fs (truediv base_dir (name @ ''_'' @ strftime_Ymd_HMS now)) \<noteq> None"
  have "allocate_backup_dir fs base_dir name now = probe_backup_dir fs base_dir name 1"
    using path_mkdir_exists [OF x, of True]
    by (simp add: allocate_backup_dir_def create_unique_backup_dir_def Let_def
        is_FileExistsError_def)
  then show "\<exists>k\<ge>1. (\<forall>j. 1 \<le> j \<and> j < k \<longrightarrow>
                  map_of fs (truediv base_dir (name @ ''_'' @ str_nat j)) \<noteq> None) \<and>
         map_of fs (truediv base_dir (name @ ''_'' @ str_nat k)) = None \<and>
         allocate_backup_dir fs base_dir name now =
           (case path_mkdir fs (truediv base_dir (name @ ''_'' @ str_nat k)) True False of
              Inl e \<Rightarrow> Inl e
            | Inr fs' \<Rightarrow> Inr (fs', truediv base_dir (name @ ''_'' @ str_nat k)))"
    using probe_least [of 1 fs base_dir name, unfolded probe_name_def] by simp
next
  fix fs1 d1 now' fs2 d2
  assume "allocate_backup_dir fs base_dir name now = Inr (fs1, d1)"
    and "allocate_backup_dir fs1 base_dir name now' = Inr (fs2, d2)"
  then have "map_of fs1 d1 \<noteq> None" "map_of fs1 d2 = None"
    using allocate_fresh by blast+
  then show "d1 \<noteq> d2" by auto
qed

theorem allocation_unique_witness:
  "strftime_Ymd_HMS demo_now = ''20261104_090500'' \<and>
   nat_of_digits (take 2 (drop 4 (strftime_Ymd_HMS demo_now))) = 11 \<and>
   allocate_backup_dir demo_fs [''/'', ''src''] ''backup'' demo_now
     = Inr (stamped_fs, [''/'', ''src'', ''backup_20261104_090500'']) \<and>
   allocate_backup_dir stamped_fs [''/'', ''src''] ''backup'' demo_now
     = Inr (stamped_fs @ [([''/'', ''src'', ''backup_2''], Dir True)], [''/'', ''src'', ''backup_2'']) \<and>
   [''/'', ''src'', ''backup_20261104_090500''] \<noteq> [''/'', ''src'', ''backup_2'']"
proof -
  have 1: "strftime_Ymd_HMS demo_now = ''20261104_090500''"
    by code_simp
  have v: "valid_datetime demo_now"
    by (simp add: valid_datetime_def demo_now_def)
  have m: "month demo_now = 11" by (simp add: demo_now_def)
  have 2: "allocate_backup_dir demo_fs [''/'', ''src''] ''backup'' demo_now
     = Inr (stamped_fs, [''/'', ''src'', ''backup_20261104_090500''])"
    by code_simp
  have 3: "allocate_backup_dir stamped_fs [''/'', ''src''] ''backup'' demo_now
     = Inr (stamped_fs @ [([''/'', ''src'', ''backup_2''], Dir True)], [''/'', ''src'', ''backup_2''])"
    by code_simp
  note t = allocation_unique [of demo_now "''backup''" "[''/'', ''src'']" demo_fs]
  have 4: "nat_of_digits (take 2 (drop 4 (strftime_Ymd_HMS demo_now))) = 11"
    using t v m by simp
  have 5: "[''/'', ''src'', ''backup_20261104_090500''] \<noteq> [''/'', ''src'', ''backup_2'']"
    using t 2 3 by blast
  from 1 2 3 4 5 show ?thesis by blast
qed

text \<open>
  C6 as stated fails: the probing starts when any entry has the first name. Here that
  entry is a regular file, so no directory of that name exists, and the allocation probes
  all the same and returns \<open>backup_1\<close>.
\<close>

theorem probes_on_regular_file:
  "map_of file_stamped_fs [''/'', ''src'', ''backup_20261104_090500''] = Some (File ''x'' True) \<and>
   is_dir file_stamped_fs [''/'', ''src'', ''backup_20261104_090500''] = Inr False \<and>
   create_unique_backup_dir file_stamped_fs [''/'', ''src''] ''backup'' demo_now
     = Inl (FileExistsError [''/'', ''src'', ''backup_20261104_090500'']) \<and>
   allocate_backup_dir file_stamped_fs [''/'', ''src''] ''backup'' demo_now
     = Inr (file_stamped_fs @ [([''/'', ''src'', ''backup_1''], Dir True)],
            [''/'', ''src'', ''backup_1''])"
  by code_simp

section \<open>Properties of the recursive copy\<close>

lemma copy_dir_files_records:
  assumes "copy_dir_files root_path target_root ex files (fs, acc) = Inr (fs', acc')"
    and "\<forall>pair \<in> set acc. P pair"
    and "\<And>fname. fname \<notin> ex \<Longrightarrow> P (child root_path fname, child target_root fname)"
  shows "\<forall>pair \<in> set acc'. P pair"
  using assms(1,2)
proof (induction files arbitrary: fs acc)
  case Nil
  then show ?case by simp
next
  case (Cons fname rest)
  show ?case
  proof (cases "fname \<in> ex")
    case True
    then show ?thesis using Cons by simp
  next
    case False
    then obtain fs1 where c: "copy2 fs (child root_path fname) (child target_root fname) = Inr fs1"
      and r: "copy_dir_files root_path target_root ex rest
                (fs1, acc @ [(child root_path fname, child target_root fname)]) = Inr (fs', acc')"
      using Cons.prems(1) by (auto simp: Let_def split: sum.splits)
    have "\<forall>pair \<in> set (acc @ [(child root_path fname, child target_root fname)]). P pair"
      using Cons.prems(2) assms(3) [OF False] by simp
    then show ?thesis using Cons.IH [OF r] by blast
  qed
qed

lemma walk_body_records:
  assumes "walk_body src_dir dst_dir ex root_path files (fs, acc) = Inr (fs', acc')"
    and "[] \<notin> ex"
    and "\<forall>pair \<in> set acc. mirrored src_dir dst_dir ex pair"
  shows "\<forall>pair \<in> set acc'. mirrored src_dir dst_dir ex pair"
proof (cases "relative_to root_path src_dir")
  case (Inl e)
  then show ?thesis using assms(1) by (simp add: walk_body_def)
next
  case (Inr rel_root)
  then have "take (length src_dir) root_path = src_dir" "rel_root = drop (length src_dir) root_path"
    by (auto simp: relative_to_def split: if_splits)
  then have root: "root_path = src_dir @ rel_root"
    using append_take_drop_id [of "length src_dir" root_path] by simp
  show ?thesis
  proof (cases "\<exists>part \<in> set (filter (\<lambda>part. part \<noteq> []) (parts rel_root)). part \<in> ex")
    case True
    then have "acc' = acc" using assms(1) Inr by (simp add: walk_body_def)
    then show ?thesis using assms(3) by simp
  next
    case False
    then have clean: "set rel_root \<inter> ex = {}"
      using assms(2) by (auto simp: parts_def)
    have "walk_body src_dir dst_dir ex root_path files (fs, acc) =
        (case path_mkdir fs (joinpath dst_dir rel_root) True True of
           Inl e \<Rightarrow> Inl e
         | Inr fs1 \<Rightarrow> copy_dir_files root_path (joinpath dst_dir rel_root) ex files (fs1, acc))"
      unfolding walk_body_def Inr sum.case if_not_P [OF False] Let_def fst_conv snd_conv by (rule refl)
    then obtain fs1 where
      c: "copy_dir_files root_path (joinpath dst_dir rel_root) ex files (fs1, acc) = Inr (fs', acc')"
      using assms(1) by (auto split: sum.splits)
    have "mirrored src_dir dst_dir ex (child root_path fname, child (joinpath dst_dir rel_root) fname)"
      if "fname \<notin> ex" for fname
      unfolding mirrored_def
      using that clean
      by (intro exI [of _ "rel_root @ [fname]"]) (simp add: root child_def joinpath_def)
    then show ?thesis
      using copy_dir_files_records [OF c assms(3)] by blast
  qed
qed

lemma copy_walk_records:
  assumes "[] \<notin> ex" and "\<forall>pair \<in> set acc. mirrored src_dir dst_dir ex pair"
  shows "\<forall>pair \<in> set (records_of (copy_walk fuel src_dir dst_dir ex stack (fs, acc))).
           mirrored src_dir dst_dir ex pair"
  using assms(2)
proof (induction fuel arbitrary: stack fs acc)
  case 0
  then show ?case by (cases stack) simp_all
next
  case (Suc fuel)
  show ?case
  proof (cases stack)
    case Nil
    then show ?thesis using Suc.prems by simp
  next
    case (Cons top_dir rest)
    show ?thesis
    proof (cases "os_scandir fs top_dir")
      case (Inl e)
      then show ?thesis using Suc.IH [OF Suc.prems] Cons by simp
    next
      case (Inr es)
      show ?thesis
      proof (cases "walk_body src_dir dst_dir ex top_dir
                      (map fst (filter (\<lambda>entry. \<not> snd entry) es)) (fs, acc)")
        case (Inl e)
        then show ?thesis using Cons \<open>os_scandir fs top_dir = Inr es\<close> by (simp add: Let_def)
      next
        case st: (Inr st)
        obtain fs' acc' where s: "st = (fs', acc')" by (cases st)
        have "\<forall>pair \<in> set acc'. mirrored src_dir dst_dir ex pair"
          using walk_body_records [OF st [unfolded s] assms(1) Suc.prems] .
        then show ?thesis
          using Suc.IH [of acc'] Cons \<open>os_scandir fs top_dir = Inr es\<close> st s
          by (simp add: Let_def)
      qed
    qed
  qed
qed

text \<open>
  C2. At every moment of the recursive walk, and so in the list it returns, every record
  is a pair of \<open>src_dir/rel\<close> and \<open>dst_dir/rel\<close> for a relative path \<open>rel\<close> none of
  whose parts is an excluded name. So a file whose relative path has a part equal to an
  excluded name is the source of no record. (File names are never empty, so the empty
  string is no excluded name.)
\<close>

theorem excluded_subtree_not_copied:
  assumes "[] \<notin> exclude_names"
  shows "(\<forall>pair \<in> set (records_of (copy_files_recursive fuel fs src_dir dst_dir exclude_names)).
            \<exists>rel. fst pair = joinpath src_dir rel \<and> snd pair = joinpath dst_dir rel \<and>
                  set rel \<inter> exclude_names = {}) \<and>
         (\<forall>rel. (\<exists>part \<in> set rel. part \<in> exclude_names) \<longrightarrow>
            joinpath src_dir rel
              \<notin> fst ` set (records_of (copy_files_recursive fuel fs src_dir dst_dir exclude_names)))"
proof -
  have m: "\<forall>pair \<in> set (records_of (copy_files_recursive fuel fs src_dir dst_dir exclude_names)).
            mirrored src_dir dst_dir exclude_names pair"
    unfolding copy_files_recursive_def by (rule copy_walk_records [OF assms]) simp
  show ?thesis
  proof (intro conjI allI impI)
    show "\<forall>pair \<in> set (records_of (copy_files_recursive fuel fs src_dir dst_dir exclude_names)).
            \<exists>rel. fst pair = joinpath src_dir rel \<and> snd pair = joinpath dst_dir rel \<and>
                  set rel \<inter> exclude_names = {}"
      using m by (simp add: mirrored_def)
  next
    fix rel assume x: "\<exists>part \<in> set rel. part \<in> exclude_names"
    show "joinpath src_dir rel
              \<notin> fst ` set (records_of (copy_files_recursive fuel fs src_dir dst_dir exclude_names))"
    proof
      assume "joinpath src_dir rel
              \<in> fst ` set (records_of (copy_files_recursive fuel fs src_dir dst_dir exclude_names))"
      then obtain pair where
        p: "pair \<in> set (records_of (copy_files_recursive fuel fs src_dir dst_dir exclude_names))"
        and f: "fst pair = joinpath src_dir rel"
        by auto
      from m p obtain rel' where "fst pair = joinpath src_dir rel'" "set rel' \<inter> exclude_names = {}"
        by (auto simp: mirrored_def)
      then have "rel' = rel" using f by (simp add: joinpath_def)
      then show False using x \<open>set rel' \<inter> exclude_names = {}\<close> by auto
    qed
  qed
qed

theorem excluded_subtree_not_copied_witness:
  "copy_files_recursive 10 tree_fs [''/'', ''src''] [''/'', ''src'', ''backup_1'']
       {''backup_1'', ''final_backup.py''}
     = Finished tree_copied_fs
         [([''/'', ''src'', ''a.txt''], [''/'', ''src'', ''backup_1'', ''a.txt'']),
          ([''/'', ''src'', ''sub'', ''b.txt''], [''/'', ''src'', ''backup_1'', ''sub'', ''b.txt''])] \<and>
   map_of tree_fs [''/'', ''src'', ''sub'', ''backup_1'', ''old.txt''] = Some (File ''old'' True) \<and>
   joinpath [''/'', ''src''] [''sub'', ''backup_1'', ''old.txt'']
     \<notin> fst ` set (records_of (copy_files_recursive 10 tree_fs [''/'', ''src'']
                       [''/'', ''src'', ''backup_1''] {''backup_1'', ''final_backup.py''}))"
proof -
  have 1: "copy_files_recursive 10 tree_fs [''/'', ''src''] [''/'', ''src'', ''backup_1'']
       {''backup_1'', ''final_backup.py''}
     = Finished tree_copied_fs
         [([''/'', ''src'', ''a.txt''], [''/'', ''src'', ''backup_1'', ''a.txt'']),
          ([''/'', ''src'', ''sub'', ''b.txt''], [''/'', ''src'', ''backup_1'', ''sub'', ''b.txt''])]"
    by code_simp
  have 2: "map_of tree_fs [''/'', ''src'', ''sub'', ''backup_1'', ''old.txt''] = Some (File ''old'' True)"
    by code_simp
  have e: "[] \<notin> {''backup_1'', ''final_backup.py''}" by simp
  have x: "\<exists>part \<in> set [''sub'', ''backup_1'', ''old.txt'']. part \<in> {''backup_1'', ''final_backup.py''}"
    by simp
  have 3: "joinpath [''/'', ''src''] [''sub'', ''backup_1'', ''old.txt'']
     \<notin> fst ` set (records_of (copy_files_recursive 10 tree_fs [''/'', ''src'']
                       [''/'', ''src'', ''backup_1''] {''backup_1'', ''final_backup.py''}))"
    using excluded_subtree_not_copied [OF e, of 10 tree_fs "[''/'', ''src'']"
        "[''/'', ''src'', ''backup_1'']", THEN conjunct2] x by blast
  from 1 2 3 show ?thesis by blast
qed

section \<open>Properties of the run\<close>

lemma outside_kept_refl: "outside_kept d fs fs"
  by (simp add: outside_kept_def)

lemma outside_kept_trans:
  "outside_kept d fs fs1 \<Longrightarrow> outside_kept d fs1 fs2 \<Longrightarrow> outside_kept d fs fs2"
  by (auto simp: outside_kept_def)

lemma path_mkdir_keeps:
  "path_mkdir fs p parents exist_ok = Inr fs' \<Longrightarrow> map_of fs q \<noteq> None \<Longrightarrow> map_of fs' q = map_of fs q"
  using path_mkdir_post [of fs p exist_ok parents] by (auto simp: mkdir_post_def)

lemma path_mkdir_outside: "path_mkdir fs p parents exist_ok = Inr fs' \<Longrightarrow> outside_kept d fs fs'"
  using path_mkdir_keeps by (auto simp: outside_kept_def)

lemma open_wb_map_of:
  "open_wb fs p bs = Inr fs' \<Longrightarrow> map_of fs' = (map_of fs)(p \<mapsto> File bs True)"
  by (auto simp: open_wb_def update_conv' split: option.splits node.splits if_splits)

lemma take_child: "take (length d) p = d \<Longrightarrow> take (length d) (child p n) = d"
proof -
  assume a: "take (length d) p = d"
  then have "length (take (length d) p) = length d" by simp
  then have "length d \<le> length p" by simp
  then show ?thesis using a by (simp add: child_def)
qed

lemma copy2_outside:
  assumes "copy2 fs src dst = Inr fs'" and "take (length d) dst = d"
  shows "outside_kept d fs fs'"
proof -
  let ?dst = "if is_dir fs dst = Inr True then child dst (name_of src) else dst"
  from assms(1) obtain bs where w: "open_wb fs ?dst bs = Inr fs'"
    by (auto simp: copy2_def Let_def split: if_splits sum.splits)
  have "take (length d) ?dst = d" using assms(2) take_child by simp
  then show ?thesis
    using open_wb_map_of [OF w] by (auto simp: outside_kept_def)
qed

lemma copy_dir_files_outside:
  assumes "copy_dir_files root_path target_root ex files (fs, acc) = Inr (fs', acc')"
    and "take (length d) target_root = d"
  shows "outside_kept d fs fs'"
  using assms(1)
proof (induction files arbitrary: fs acc)
  case Nil
  then show ?case by (simp add: outside_kept_refl)
next
  case (Cons fname rest)
  show ?case
  proof (cases "fname \<in> ex")
    case True
    then show ?thesis using Cons by simp
  next
    case False
    then obtain fs1 where c: "copy2 fs (child root_path fname) (child target_root fname) = Inr fs1"
      and r: "copy_dir_files root_path target_root ex rest
                (fs1, acc @ [(child root_path fname, child target_root fname)]) = Inr (fs', acc')"
      using Cons.prems by (auto simp: Let_def split: sum.splits)
    have "outside_kept d fs fs1"
      using copy2_outside [OF c] take_child [OF assms(2)] by simp
    then show ?thesis using Cons.IH [OF r] outside_kept_trans by blast
  qed
qed

lemma walk_body_outside:
  assumes "walk_body src_dir dst_dir ex root_path files (fs, acc) = Inr (fs', acc')"
  shows "outside_kept dst_dir fs fs'"
proof (cases "relative_to root_path src_dir")
  case (Inl e)
  then show ?thesis using assms by (simp add: walk_body_def)
next
  case (Inr rel_root)
  show ?thesis
  proof (cases "\<exists>part \<in> set (filter (\<lambda>part. part \<noteq> []) (parts rel_root)). part \<in> ex")
    case True
    then have "fs' = fs" using assms Inr by (simp add: walk_body_def)
    then show ?thesis by (simp add: outside_kept_refl)
  next
    case False
    have "walk_body src_dir dst_dir ex root_path files (fs, acc) =
        (case path_mkdir fs (joinpath dst_dir rel_root) True True of
           Inl e \<Rightarrow> Inl e
         | Inr fs1 \<Rightarrow> copy_dir_files root_path (joinpath dst_dir rel_root) ex files (fs1, acc))"
      unfolding walk_body_def Inr sum.case if_not_P [OF False] Let_def fst_conv snd_conv by (rule refl)
    then obtain fs1 where m: "path_mkdir fs (joinpath dst_dir rel_root) True True = Inr fs1"
      and c: "copy_dir_files root_path (joinpath dst_dir rel_root) ex files (fs1, acc) = Inr (fs', acc')"
      using assms by (auto split: sum.splits)
    have "take (length dst_dir) (joinpath dst_dir rel_root) = dst_dir"
      by (simp add: joinpath_def)
    then show ?thesis
      using path_mkdir_outside [OF m] copy_dir_files_outside [OF c] outside_kept_trans by blast
  qed
qed

lemma copy_walk_outside:
  "copy_walk fuel src_dir dst_dir ex stack (fs, acc) = Finished fs' acc' \<Longrightarrow> outside_kept dst_dir fs fs'"
proof (induction fuel arbitrary: stack fs acc)
  case 0
  then show ?case by (cases stack) (simp_all add: outside_kept_refl)
next
  case (Suc fuel)
  show ?case
  proof (cases stack)
    case Nil
    then show ?thesis using Suc.prems by (simp add: outside_kept_refl)
  next
    case (Cons top_dir rest)
    show ?thesis
    proof (cases "os_scandir fs top_dir")
      case (Inl e)
      then show ?thesis using Suc Cons by simp
    next
      case (Inr es)
      show ?thesis
      proof (cases "walk_body src_dir dst_dir ex top_dir
                      (map fst (filter (\<lambda>entry. \<not> snd entry) es)) (fs, acc)")
        case (Inl e)
        then show ?thesis using Suc.prems Cons \<open>os_scandir fs top_dir = Inr es\<close>
          by (simp add: Let_def)
      next
        case st: (Inr st)
        obtain fs1 acc1 where s: "st = (fs1, acc1)" by (cases st)
        have 1: "outside_kept dst_dir fs fs1"
          using walk_body_outside [OF st [unfolded s]] .
        have "copy_walk fuel src_dir dst_dir ex (map (child top_dir) (map fst (filter snd es)) @ rest)
                (fs1, acc1) = Finished fs' acc'"
          using Suc.prems Cons \<open>os_scandir fs top_dir = Inr es\<close> st s by (simp add: Let_def)
        then have "outside_kept dst_dir fs1 fs'" by (rule Suc.IH)
        then show ?thesis using 1 outside_kept_trans by blast
      qed
    qed
  qed
qed

lemma copy_items_outside:
  "copy_items dst_dir ex items (fs, acc) = Inr (fs', acc') \<Longrightarrow> outside_kept dst_dir fs fs'"
proof (induction items arbitrary: fs acc)
  case Nil
  then show ?case by (simp add: outside_kept_refl)
next
  case (Cons item rest)
  show ?case
  proof (cases "name_of item \<in> ex \<or> is_file fs item = Inr False")
    case True
    then have "copy_items dst_dir ex rest (fs, acc) = Inr (fs', acc')"
      using Cons.prems by (auto split: if_splits)
    then show ?thesis by (rule Cons.IH)
  next
    case False
    then obtain fs1 where c: "copy2 fs item (child dst_dir (name_of item)) = Inr fs1"
      and r: "copy_items dst_dir ex rest (fs1, acc @ [(item, child dst_dir (name_of item))])
                = Inr (fs', acc')"
      using Cons.prems by (auto simp: Let_def split: sum.splits if_splits)
    have "take (length dst_dir) (child dst_dir (name_of item)) = dst_dir"
      by (simp add: child_def)
    then have "outside_kept dst_dir fs fs1" using copy2_outside [OF c] by simp
    then show ?thesis using Cons.IH [OF r] outside_kept_trans by blast
  qed
qed

lemma allocate_mkdir:
  assumes "allocate_backup_dir fs base_dir name now = Inr (fs', d)"
  shows "path_mkdir fs d True False = Inr fs'"
proof (cases "create_unique_backup_dir fs base_dir name now")
  case (Inr r)
  then show ?thesis
    using assms by (auto simp: allocate_backup_dir_def create_unique_backup_dir_def Let_def
        split: sum.splits)
next
  case (Inl e)
  then have p: "probe_backup_dir fs base_dir name 1 = Inr (fs', d)"
    using assms by (auto simp: allocate_backup_dir_def split: if_splits)
  from probe_least [of 1 fs base_dir name] obtain k where
    "probe_backup_dir fs base_dir name 1 =
       (case path_mkdir fs (probe_name base_dir name k) True False of
          Inl e \<Rightarrow> Inl e
        | Inr fs' \<Rightarrow> Inr (fs', probe_name base_dir name k))"
    by blast
  with p show ?thesis by (auto split: sum.splits)
qed

lemma copy_phase_outside:
  assumes "(if rec then copy_files_recursive fuel fs src_dir dst_dir ex
            else copy_files_non_recursive fs src_dir dst_dir ex) = Finished fs' copied"
  shows "outside_kept dst_dir fs fs'"
proof (cases rec)
  case True
  then show ?thesis
    using assms copy_walk_outside by (auto simp: copy_files_recursive_def)
next
  case False
  then show ?thesis
    using assms copy_items_outside
    by (auto simp: copy_files_non_recursive_def split: sum.splits prod.splits)
qed

lemma main_declined:
  assumes "opt_delete a" "\<not> opt_force a" "stdin = Some resp" "py_lower (py_strip resp) \<noteq> ''y''"
  shows "main fuel hl set_iter e now stdin a fs =
     (case copy_phase fuel e now a fs of
        Inl err \<Rightarrow> Fatal err
      | Inr ((fs1, backup_dir), Raised err) \<Rightarrow> Fatal err
      | Inr ((fs1, backup_dir), Running fs2 stack copied) \<Rightarrow> Diverged
      | Inr ((fs1, backup_dir), Finished fs2 copied) \<Rightarrow>
          if length copied = 0 then NoFiles fs2 backup_dir else Aborted fs2 backup_dir copied)"
  using assms
  by (simp add: main_def copy_phase_def Let_def split: prod.splits sum.splits copy_result.splits)

lemma main_kept:
  assumes "\<not> opt_delete a"
  shows "main fuel hl set_iter e now stdin a fs =
     (case copy_phase fuel e now a fs of
        Inl err \<Rightarrow> Fatal err
      | Inr ((fs1, backup_dir), Raised err) \<Rightarrow> Fatal err
      | Inr ((fs1, backup_dir), Running fs2 stack copied) \<Rightarrow> Diverged
      | Inr ((fs1, backup_dir), Finished fs2 copied) \<Rightarrow>
          if length copied = 0 then NoFiles fs2 backup_dir else Kept fs2 backup_dir copied)"
  using assms
  by (simp add: main_def copy_phase_def Let_def split: prod.splits sum.splits copy_result.splits)

lemma copy_phase_delete_flag:
  "copy_phase fuel e now (a\<lparr>opt_delete := b\<rparr>) fs = copy_phase fuel e now a fs"
  by (simp add: copy_phase_def split: prod.splits sum.splits)

lemma copy_phase_keeps:
  assumes "copy_phase fuel e now a fs = Inr ((fs1, backup_dir), Finished fs2 copied)"
    and "take (length backup_dir) q \<noteq> backup_dir" and "map_of fs q \<noteq> None"
  shows "map_of fs2 q = map_of fs q"
proof -
  obtain script_path base_dir where d: "determine_script_and_base_dir e = (script_path, base_dir)"
    by (cases "determine_script_and_base_dir e")
  from assms(1) have al: "allocate_backup_dir fs base_dir (opt_name a) now = Inr (fs1, backup_dir)"
    and cp: "(if opt_recursive a
               then copy_files_recursive fuel fs1 base_dir backup_dir
                      {name_of backup_dir, name_of script_path}
               else copy_files_non_recursive fs1 base_dir backup_dir
                      {name_of backup_dir, name_of script_path}) = Finished fs2 copied"
    by (auto simp: copy_phase_def d split: sum.splits prod.splits)
  have 1: "map_of fs1 q = map_of fs q"
    using path_mkdir_keeps [OF allocate_mkdir [OF al] assms(3)] .
  have "outside_kept backup_dir fs1 fs2"
    using copy_phase_outside [OF cp] .
  then have "map_of fs2 q = map_of fs1 q"
    using assms(2,3) 1 by (simp add: outside_kept_def)
  then show ?thesis using 1 by simp
qed

text \<open>
  C8. With \<open>--delete\<close>, without \<open>--force\<close>, and an answer that is not \<open>y\<close> after stripping
  and lowercasing, the run is the run without \<open>--delete\<close>, ended in \<open>Aborted\<close> where
  that one ends in \<open>Kept\<close>: the file system is the one the copy left, \<open>delete_backed_files\<close>
  is not called, and every entry that was there at the start, outside the new backup
  directory, is unchanged.
\<close>

theorem declined_confirmation_deletes_nothing:
  assumes "opt_delete a" and "\<not> opt_force a" and "stdin = Some resp"
    and "py_lower (py_strip resp) \<noteq> ''y''"
  shows "main fuel hl set_iter e now stdin a fs =
           (case main fuel hl set_iter e now stdin (a\<lparr>opt_delete := False\<rparr>) fs of
              Kept fs' backup_dir copied \<Rightarrow> Aborted fs' backup_dir copied
            | r \<Rightarrow> r) \<and>
         (\<forall>fs' backup_dir copied deleted failed.
            main fuel hl set_iter e now stdin a fs \<noteq> Deleted fs' backup_dir copied deleted failed) \<and>
         (\<forall>fs' backup_dir copied.
            main fuel hl set_iter e now stdin a fs = Aborted fs' backup_dir copied \<longrightarrow>
              (\<forall>q. take (length backup_dir) q \<noteq> backup_dir \<longrightarrow> map_of fs q \<noteq> None \<longrightarrow>
                   map_of fs' q = map_of fs q))"
proof (intro conjI allI impI)
  have k: "main fuel hl set_iter e now stdin (a\<lparr>opt_delete := False\<rparr>) fs =
     (case copy_phase fuel e now a fs of
        Inl err \<Rightarrow> Fatal err
      | Inr ((fs1, backup_dir), Raised err) \<Rightarrow> Fatal err
      | Inr ((fs1, backup_dir), Running fs2 stack copied) \<Rightarrow> Diverged
      | Inr ((fs1, backup_dir), Finished fs2 copied) \<Rightarrow>
          if length copied = 0 then NoFiles fs2 backup_dir else Kept fs2 backup_dir copied)"
    using main_kept [of "a\<lparr>opt_delete := False\<rparr>" fuel hl set_iter e now stdin fs]
    by (simp add: copy_phase_delete_flag)
  show "main fuel hl set_iter e now stdin a fs =
           (case main fuel hl set_iter e now stdin (a\<lparr>opt_delete := False\<rparr>) fs of
              Kept fs' backup_dir copied \<Rightarrow> Aborted fs' backup_dir copied
            | r \<Rightarrow> r)"
    unfolding k main_declined [OF assms]
    by (simp split: sum.splits prod.splits copy_result.splits)
next
  fix fs' backup_dir copied deleted failed
  show "main fuel hl set_iter e now stdin a fs \<noteq> Deleted fs' backup_dir copied deleted failed"
    unfolding main_declined [OF assms]
    by (simp split: sum.splits prod.splits copy_result.splits)
next
  fix fs' backup_dir copied q
  assume ab: "main fuel hl set_iter e now stdin a fs = Aborted fs' backup_dir copied"
    and q: "take (length backup_dir) q \<noteq> backup_dir" "map_of fs q \<noteq> None"
  from ab obtain fs1 where "copy_phase fuel e now a fs = Inr ((fs1, backup_dir), Finished fs' copied)"
    unfolding main_declined [OF assms]
    by (auto split: sum.splits prod.splits copy_result.splits if_splits)
  then show "map_of fs' q = map_of fs q"
    using q by (rule copy_phase_keeps)
qed

theorem declined_confirmation_deletes_nothing_witness:
  "main 10 toy_hashlib remdups script_env demo_now (Some '' N '') delete_args start_fs
     = Aborted backed_up_fs [''/'', ''src'', ''backup_20261104_090500''] backed_up_pairs \<and>
   main 10 toy_hashlib remdups script_env demo_now (Some '' N '')
       (delete_args\<lparr>opt_delete := False\<rparr>) start_fs
     = Kept backed_up_fs [''/'', ''src'', ''backup_20261104_090500''] backed_up_pairs \<and>
   map_of backed_up_fs [''/'', ''src'', ''a.txt''] = map_of start_fs [''/'', ''src'', ''a.txt'']"
proof -
  have 1: "opt_delete delete_args" and 2: "\<not> opt_force delete_args"
    by (simp_all add: delete_args_def)
  have 3: "py_lower (py_strip '' N '') \<noteq> ''y''"
    by code_simp
  have k: "main 10 toy_hashlib remdups script_env demo_now (Some '' N '')
       (delete_args\<lparr>opt_delete := False\<rparr>) start_fs
     = Kept backed_up_fs [''/'', ''src'', ''backup_20261104_090500''] backed_up_pairs"
    by code_simp
  note t = declined_confirmation_deletes_nothing [OF 1 2 refl 3, of 10 toy_hashlib remdups
      script_env demo_now start_fs]
  have a: "main 10 toy_hashlib remdups script_env demo_now (Some '' N '') delete_args start_fs
     = Aborted backed_up_fs [''/'', ''src'', ''backup_20261104_090500''] backed_up_pairs"
    using t [THEN conjunct1] by (simp add: k)
  have n: "take (length [''/'', ''src'', ''backup_20261104_090500'']) [''/'', ''src'', ''a.txt'']
      \<noteq> [''/'', ''src'', ''backup_20261104_090500'']"
    and m: "map_of start_fs [''/'', ''src'', ''a.txt''] \<noteq> None"
    by (simp_all add: start_fs_def)
  have "map_of backed_up_fs [''/'', ''src'', ''a.txt''] = map_of start_fs [''/'', ''src'', ''a.txt'']"
    using t [THEN conjunct2, THEN conjunct2] a n m by blast
  with a k show ?thesis by blast
qed

end
